theory Spec2Isabelle
  imports Main "HOL-Library.Word"
begin

unbundle bit_operations_syntax

section \<open>lz4mt: block-parallel LZ4 frame codec (src/lz4mt.cpp)\<close>

text \<open>
  The development follows \<^verbatim>\<open>src/lz4mt.cpp\<close>. A C \<^verbatim>\<open>char\<close> is a \<open>byte\<close>, a
  \<^verbatim>\<open>uint32_t\<close> a \<open>u32\<close>; a C \<^verbatim>\<open>int\<close> that only carries sizes and return codes is
  an \<open>int\<close>. A buffer handed to a callback together with a length is the list of the
  bytes in that range.
\<close>

type_synonym byte = "8 word"
type_synonym u32 = "32 word"
type_synonym u64 = "64 word"

subsection \<open>Constants (lines 16--23)\<close>

definition LZ4S_MAGICNUMBER :: u32 where
  "LZ4S_MAGICNUMBER = 0x184D2204"

definition LZ4S_MAGICNUMBER_SKIPPABLE_MIN :: u32 where
  "LZ4S_MAGICNUMBER_SKIPPABLE_MIN = 0x184D2A50"

definition LZ4S_MAGICNUMBER_SKIPPABLE_MAX :: u32 where
  "LZ4S_MAGICNUMBER_SKIPPABLE_MAX = 0x184D2A5F"

definition LZ4S_BLOCKSIZEID_DEFAULT :: int where
  "LZ4S_BLOCKSIZEID_DEFAULT = 7"

definition LZ4S_CHECKSUM_SEED :: u32 where
  "LZ4S_CHECKSUM_SEED = 0"

definition LZ4S_EOS :: u32 where
  "LZ4S_EOS = 0"

definition MAX_HEADER_SIZE :: int where
  "MAX_HEADER_SIZE = 4 + 2 + 8 + 4 + 1"

subsection \<open>Declarations of lz4mt.h\<close>

text \<open>
  Modelled from the spec: the header \<^verbatim>\<open>lz4mt.h\<close> (the result enumeration, the
  descriptor structs, the context struct and the mode constants) is not part of the
  sources at hand. The result codes are those \<^verbatim>\<open>lz4mt.cpp\<close> names. The descriptor
  fields are integer valued: \<^verbatim>\<open>flgToChar\<close> and \<^verbatim>\<open>bdToChar\<close> mask every field
  before packing it and \<^verbatim>\<open>validateStreamDescriptor\<close> tests
  \<^verbatim>\<open>blockMaximumSize > 7\<close>, so a field holds more values than its bits on the wire.
\<close>

datatype Lz4MtResult =
    LZ4MT_RESULT_OK
  | LZ4MT_RESULT_ERROR
  | LZ4MT_RESULT_INVALID_MAGIC_NUMBER
  | LZ4MT_RESULT_INVALID_HEADER
  | LZ4MT_RESULT_PRESET_DICTIONARY_IS_NOT_SUPPORTED_YET
  | LZ4MT_RESULT_BLOCK_DEPENDENCE_IS_NOT_SUPPORTED_YET
  | LZ4MT_RESULT_INVALID_VERSION
  | LZ4MT_RESULT_INVALID_HEADER_CHECKSUM
  | LZ4MT_RESULT_INVALID_BLOCK_MAXIMUM_SIZE
  | LZ4MT_RESULT_CANNOT_WRITE_HEADER
  | LZ4MT_RESULT_CANNOT_WRITE_EOS
  | LZ4MT_RESULT_CANNOT_WRITE_STREAM_CHECKSUM
  | LZ4MT_RESULT_CANNOT_READ_BLOCK_SIZE
  | LZ4MT_RESULT_CANNOT_READ_BLOCK_DATA
  | LZ4MT_RESULT_CANNOT_READ_BLOCK_CHECKSUM
  | LZ4MT_RESULT_CANNOT_READ_STREAM_CHECKSUM
  | LZ4MT_RESULT_STREAM_CHECKSUM_MISMATCH
  | LZ4MT_RESULT_BLOCK_CHECKSUM_MISMATCH

record Lz4MtFlg =
  presetDictionary :: int
  reserved1 :: int
  streamChecksum :: int
  streamSize :: int
  blockChecksum :: int
  blockIndependance :: int
  versionNumber :: int

record Lz4MtBd =
  reserved3 :: int
  blockMaximumSize :: int
  reserved2 :: int

text \<open>
  The descriptor's 64-bit \<^verbatim>\<open>streamSize\<close> member is \<open>streamSizeValue\<close> here, since the
  flag of \<open>Lz4MtFlg\<close> has the same name.
\<close>

record Lz4MtStreamDescriptor =
  flg :: Lz4MtFlg
  bd :: Lz4MtBd
  streamSizeValue :: u64
  dictId :: u32

definition LZ4MT_MODE_PARALLEL :: int where
  "LZ4MT_MODE_PARALLEL = 0"

definition LZ4MT_MODE_SEQUENTIAL :: int where
  "LZ4MT_MODE_SEQUENTIAL = 1"

text \<open>
  The context. \<open>'r\<close> is what \<^verbatim>\<open>readCtx\<close> points to and \<open>'w\<close> what \<^verbatim>\<open>writeCtx\<close> points
  to; a callback takes the caller's state and returns it updated.
  \<^item> \<open>read r n\<close> returns the bytes it stored in the buffer (its return value is their
    number) and the new state;
  \<^item> \<open>write' w bs\<close> (the member \<^verbatim>\<open>write\<close>) is handed the \<open>n\<close> bytes at the pointer and
    returns its return value and the new state;
  \<^item> \<open>compress src maxOutputSize\<close> and \<open>decompress src maxOutputSize\<close> return their
    return value and the contents of the destination buffer.
\<close>

record ('r, 'w) Lz4MtContext =
  result :: Lz4MtResult
  readCtx :: 'r
  read :: "'r \<Rightarrow> int \<Rightarrow> byte list \<times> 'r"
  readEof :: "'r \<Rightarrow> bool"
  readSkippable :: "'r \<Rightarrow> u32 \<Rightarrow> u32 \<Rightarrow> int \<times> 'r"
  readSeek :: "'r \<Rightarrow> int \<Rightarrow> 'r"
  writeCtx :: 'w
  write' :: "'w \<Rightarrow> byte list \<Rightarrow> int \<times> 'w"
  compress :: "byte list \<Rightarrow> int \<Rightarrow> int \<times> byte list"
  compressBound :: "int \<Rightarrow> int"
  decompress :: "byte list \<Rightarrow> int \<Rightarrow> int \<times> byte list"
  mode :: int

subsection \<open>xxHash32\<close>

text \<open>
  Modelled from the spec: \<^verbatim>\<open>xxhash.h\<close> is an external collaborator. \<open>XXH32\<close> is the
  one-shot 32-bit xxHash of a byte sequence with a seed.
\<close>

definition PRIME32_1 :: u32 where "PRIME32_1 = 2654435761"
definition PRIME32_2 :: u32 where "PRIME32_2 = 2246822519"
definition PRIME32_3 :: u32 where "PRIME32_3 = 3266489917"
definition PRIME32_4 :: u32 where "PRIME32_4 = 668265263"
definition PRIME32_5 :: u32 where "PRIME32_5 = 374761393"

definition XXH_rotl32 :: "u32 \<Rightarrow> nat \<Rightarrow> u32" where
  "XXH_rotl32 x r = push_bit r x OR drop_bit (32 - r) x"

definition XXH_readLE32 :: "byte list \<Rightarrow> u32" where
  "XXH_readLE32 p = ucast (p ! 0) OR push_bit 8 (ucast (p ! 1))
     OR push_bit 16 (ucast (p ! 2)) OR push_bit 24 (ucast (p ! 3))"

definition XXH32_round :: "u32 \<Rightarrow> u32 \<Rightarrow> u32" where
  "XXH32_round v w = XXH_rotl32 (v + w * PRIME32_2) 13 * PRIME32_1"

fun XXH32_stripes ::
  "byte list \<Rightarrow> u32 \<times> u32 \<times> u32 \<times> u32 \<Rightarrow> (u32 \<times> u32 \<times> u32 \<times> u32) \<times> byte list" where
  "XXH32_stripes p (v1, v2, v3, v4) =
     (if 16 \<le> length p
      then XXH32_stripes (drop 16 p)
             (XXH32_round v1 (XXH_readLE32 p),
              XXH32_round v2 (XXH_readLE32 (drop 4 p)),
              XXH32_round v3 (XXH_readLE32 (drop 8 p)),
              XXH32_round v4 (XXH_readLE32 (drop 12 p)))
      else ((v1, v2, v3, v4), p))"

fun XXH32_words :: "byte list \<Rightarrow> u32 \<Rightarrow> u32 \<times> byte list" where
  "XXH32_words p h =
     (if 4 \<le> length p
      then XXH32_words (drop 4 p)
             (XXH_rotl32 (h + XXH_readLE32 p * PRIME32_3) 17 * PRIME32_4)
      else (h, p))"

fun XXH32_bytes :: "byte list \<Rightarrow> u32 \<Rightarrow> u32" where
  "XXH32_bytes [] h = h"
| "XXH32_bytes (b # p) h =
     XXH32_bytes p (XXH_rotl32 (h + ucast b * PRIME32_5) 11 * PRIME32_1)"

definition XXH32_avalanche :: "u32 \<Rightarrow> u32" where
  "XXH32_avalanche h0 =
     (let h1 = (h0 XOR drop_bit 15 h0) * PRIME32_2;
          h2 = (h1 XOR drop_bit 13 h1) * PRIME32_3
      in h2 XOR drop_bit 16 h2)"

definition XXH32 :: "byte list \<Rightarrow> u32 \<Rightarrow> u32" where
  "XXH32 input seed =
     (let (h, p) =
            (if 16 \<le> length input
             then (let ((v1, v2, v3, v4), q) =
                         XXH32_stripes input
                           (seed + PRIME32_1 + PRIME32_2, seed + PRIME32_2, seed,
                            seed - PRIME32_1)
                   in (XXH_rotl32 v1 1 + XXH_rotl32 v2 7 + XXH_rotl32 v3 12
                         + XXH_rotl32 v4 18, q))
             else (seed + PRIME32_5, input));
          (h', p') = XXH32_words p (h + of_nat (length input))
      in XXH32_avalanche (XXH32_bytes p' h'))"

subsection \<open>Helpers of the anonymous namespace (lines 25--107)\<close>

text \<open>
  \<^verbatim>\<open>getBlocksize\<close> asserts \<open>4 \<le> bdBlockMaximumSize \<le> 7\<close>; both callers reach it only
  after \<open>validateStreamDescriptor\<close> has returned OK, which guarantees the range.
\<close>

definition getBlocksize :: "int \<Rightarrow> int" where
  "getBlocksize bdBlockMaximumSize = push_bit (nat (8 + (2 * bdBlockMaximumSize))) 1"

definition getCheckBits_FromXXH :: "u32 \<Rightarrow> u32" where
  "getCheckBits_FromXXH xxh = (drop_bit 8 xxh) AND 0xff"

definition isSkippableMagicNumber :: "u32 \<Rightarrow> bool" where
  "isSkippableMagicNumber magic \<longleftrightarrow>
     magic \<ge> LZ4S_MAGICNUMBER_SKIPPABLE_MIN \<and> magic \<le> LZ4S_MAGICNUMBER_SKIPPABLE_MAX"

definition flgToChar :: "Lz4MtFlg \<Rightarrow> byte" where
  "flgToChar f = word_of_int (
        push_bit 0 (presetDictionary f AND 1)
     OR push_bit 1 (reserved1 f AND 1)
     OR push_bit 2 (streamChecksum f AND 1)
     OR push_bit 3 (streamSize f AND 1)
     OR push_bit 4 (blockChecksum f AND 1)
     OR push_bit 5 (blockIndependance f AND 1)
     OR push_bit 6 (versionNumber f AND 3))"

text \<open>
  \<^verbatim>\<open>c >> k\<close> promotes the \<^verbatim>\<open>char\<close> to \<^verbatim>\<open>int\<close> first; \<open>sint\<close> is that value where
  \<^verbatim>\<open>char\<close> is signed. The masks keep bits below 8 only, so an unsigned \<^verbatim>\<open>char\<close>
  gives the same fields.
\<close>

definition charToFlg :: "byte \<Rightarrow> Lz4MtFlg" where
  "charToFlg c = \<lparr>
     presetDictionary = drop_bit 0 (sint c) AND 1,
     reserved1 = drop_bit 1 (sint c) AND 1,
     streamChecksum = drop_bit 2 (sint c) AND 1,
     streamSize = drop_bit 3 (sint c) AND 1,
     blockChecksum = drop_bit 4 (sint c) AND 1,
     blockIndependance = drop_bit 5 (sint c) AND 1,
     versionNumber = drop_bit 6 (sint c) AND 3 \<rparr>"

definition bdToChar :: "Lz4MtBd \<Rightarrow> byte" where
  "bdToChar b = word_of_int (
        push_bit 0 (reserved3 b AND 15)
     OR push_bit 4 (blockMaximumSize b AND 7)
     OR push_bit 7 (reserved2 b AND 1))"

definition charToBc :: "byte \<Rightarrow> Lz4MtBd" where
  "charToBc c = \<lparr>
     reserved3 = drop_bit 0 (sint c) AND 15,
     blockMaximumSize = drop_bit 4 (sint c) AND 7,
     reserved2 = drop_bit 7 (sint c) AND 1 \<rparr>"

definition storeU32 :: "u32 \<Rightarrow> byte list" where
  "storeU32 v = [ucast (drop_bit (8*0) v), ucast (drop_bit (8*1) v),
                 ucast (drop_bit (8*2) v), ucast (drop_bit (8*3) v)]"

definition storeU64 :: "u64 \<Rightarrow> byte list" where
  "storeU64 v = storeU32 (ucast (drop_bit (8*0) v)) @ storeU32 (ucast (drop_bit (8*4) v))"

text \<open>\<^verbatim>\<open>loadU32\<close> reads \<open>q[0..3]\<close>; every caller passes at least four bytes.\<close>

definition loadU32 :: "byte list \<Rightarrow> u32" where
  "loadU32 q = push_bit (8*0) (ucast (q ! 0)) OR push_bit (8*1) (ucast (q ! 1))
            OR push_bit (8*2) (ucast (q ! 2)) OR push_bit (8*3) (ucast (q ! 3))"

definition loadU64 :: "byte list \<Rightarrow> u64" where
  "loadU64 q = push_bit (8*0) (ucast (loadU32 q)) OR push_bit (8*4) (ucast (loadU32 (drop 4 q)))"

subsection \<open>The sticky result and the guarded I/O helpers (lines 109--157)\<close>

definition error :: "('r, 'w) Lz4MtContext \<Rightarrow> bool" where
  "error ctx \<longleftrightarrow> LZ4MT_RESULT_OK \<noteq> result ctx"

definition setResult :: "('r, 'w) Lz4MtContext \<Rightarrow> Lz4MtResult \<Rightarrow> ('r, 'w) Lz4MtContext" where
  "setResult ctx r =
     (if LZ4MT_RESULT_OK = result ctx \<or> LZ4MT_RESULT_ERROR = result ctx
      then ctx\<lparr>result := r\<rparr> else ctx)"

text \<open>\<open>ctx_read\<close> and \<open>ctx_write\<close> are the calls \<^verbatim>\<open>ctx->read(ctx, buf, n)\<close> and
  \<^verbatim>\<open>ctx->write(ctx, ptr, n)\<close>: the callback runs on the caller's state.\<close>

definition ctx_read :: "('r, 'w) Lz4MtContext \<Rightarrow> int \<Rightarrow> byte list \<times> ('r, 'w) Lz4MtContext" where
  "ctx_read ctx n = (let (d, r) = read ctx (readCtx ctx) n in (d, ctx\<lparr>readCtx := r\<rparr>))"

definition ctx_readEof :: "('r, 'w) Lz4MtContext \<Rightarrow> bool" where
  "ctx_readEof ctx = readEof ctx (readCtx ctx)"

definition ctx_write :: "('r, 'w) Lz4MtContext \<Rightarrow> byte list \<Rightarrow> int \<Rightarrow> int \<times> ('r, 'w) Lz4MtContext" where
  "ctx_write ctx ptr n =
     (let (k, w) = write' ctx (writeCtx ctx) (take (nat n) ptr) in (k, ctx\<lparr>writeCtx := w\<rparr>))"

definition readU32 :: "('r, 'w) Lz4MtContext \<Rightarrow> u32 \<times> ('r, 'w) Lz4MtContext" where
  "readU32 ctx =
     (if error ctx then (0, ctx)
      else let (d, ctx') = ctx_read ctx 4
           in if 4 \<noteq> int (length d) then (0, ctx'\<lparr>result := LZ4MT_RESULT_ERROR\<rparr>)
              else (loadU32 d, ctx'))"

definition writeU32 :: "('r, 'w) Lz4MtContext \<Rightarrow> u32 \<Rightarrow> bool \<times> ('r, 'w) Lz4MtContext" where
  "writeU32 ctx v =
     (if error ctx then (False, ctx)
      else let (k, ctx') = ctx_write ctx (storeU32 v) 4
           in if 4 \<noteq> k then (False, ctx'\<lparr>result := LZ4MT_RESULT_ERROR\<rparr>)
              else (True, ctx'))"

definition writeBin :: "('r, 'w) Lz4MtContext \<Rightarrow> byte list \<Rightarrow> int \<Rightarrow> bool \<times> ('r, 'w) Lz4MtContext" where
  "writeBin ctx ptr size' =
     (if error ctx then (False, ctx)
      else let (k, ctx') = ctx_write ctx ptr size'
           in if size' \<noteq> k then (False, ctx'\<lparr>result := LZ4MT_RESULT_ERROR\<rparr>)
              else (True, ctx'))"

subsection \<open>Descriptor validation (lines 159--185)\<close>

definition validateStreamDescriptor :: "Lz4MtStreamDescriptor \<Rightarrow> Lz4MtResult" where
  "validateStreamDescriptor sd =
     (if 1 \<noteq> versionNumber (flg sd) then LZ4MT_RESULT_INVALID_VERSION
      else if 0 \<noteq> presetDictionary (flg sd)
        then LZ4MT_RESULT_PRESET_DICTIONARY_IS_NOT_SUPPORTED_YET
      else if 0 \<noteq> reserved1 (flg sd) then LZ4MT_RESULT_INVALID_HEADER
      else if 0 = blockIndependance (flg sd)
        then LZ4MT_RESULT_BLOCK_DEPENDENCE_IS_NOT_SUPPORTED_YET
      else if blockMaximumSize (bd sd) < 4 \<or> blockMaximumSize (bd sd) > 7
        then LZ4MT_RESULT_INVALID_BLOCK_MAXIMUM_SIZE
      else if 0 \<noteq> reserved3 (bd sd) then LZ4MT_RESULT_INVALID_HEADER
      else if 0 \<noteq> reserved2 (bd sd) then LZ4MT_RESULT_INVALID_HEADER
      else LZ4MT_RESULT_OK)"

subsection \<open>The incremental hasher (lines 187--218)\<close>

text \<open>
  Modelled from the spec: class \<^verbatim>\<open>Xxh32\<close> wraps \<^verbatim>\<open>XXH32_init\<close>, \<^verbatim>\<open>XXH32_update\<close> and
  \<^verbatim>\<open>XXH32_intermediateDigest\<close> of the external xxHash library. The state is the
  seed and the bytes folded in so far; the digest is a peek, the one-shot hash of
  those bytes.
\<close>

record Xxh32 =
  xxh_seed :: u32
  xxh_input :: "byte list"

definition Xxh32_init :: "u32 \<Rightarrow> Xxh32" where
  "Xxh32_init seed = \<lparr> xxh_seed = seed, xxh_input = [] \<rparr>"

definition Xxh32_update :: "Xxh32 \<Rightarrow> byte list \<Rightarrow> int \<Rightarrow> Xxh32" where
  "Xxh32_update h input len = h\<lparr> xxh_input := xxh_input h @ take (nat len) input \<rparr>"

definition Xxh32_digest :: "Xxh32 \<Rightarrow> u32" where
  "Xxh32_digest h = XXH32 (xxh_input h) (xxh_seed h)"

subsection \<open>lz4mtInitStreamDescriptor (lines 243--259)\<close>

definition lz4mtInitStreamDescriptor :: Lz4MtStreamDescriptor where
  "lz4mtInitStreamDescriptor = \<lparr>
     flg = \<lparr> presetDictionary = 0, reserved1 = 0, streamChecksum = 1, streamSize = 0,
             blockChecksum = 0, blockIndependance = 1, versionNumber = 1 \<rparr>,
     bd = \<lparr> reserved3 = 0, blockMaximumSize = LZ4S_BLOCKSIZEID_DEFAULT, reserved2 = 0 \<rparr>,
     streamSizeValue = 0,
     dictId = 0 \<rparr>"

subsection \<open>lz4mtCompress (lines 324--448)\<close>

text \<open>
  Scheduling. In sequential mode the worker \<^verbatim>\<open>f\<close> runs inline. In parallel mode every
  worker is a task of its own, and the order gate \<^verbatim>\<open>futures[i-1].wait()\<close> makes worker
  \<open>i\<close> write after worker \<open>i-1\<close>. The model runs each worker to completion where it is
  launched: that is the sequential mode, and in parallel mode it is the schedule in
  which a task finishes before the producer goes on. The index \<open>i\<close> only selects the
  future to wait for and is not a parameter here.
\<close>

definition nBlockSize :: nat where
  "nBlockSize = 4"

text \<open>\<^verbatim>\<open>1 << (nBlockSize * 8 - 1)\<close> in a 32-bit \<^verbatim>\<open>int\<close>: the sign bit.\<close>

definition cIncompressible :: int where
  "cIncompressible = sint (push_bit (nBlockSize * 8 - 1) (1 :: 32 word))"

text \<open>
  The worker \<^verbatim>\<open>f\<close> (lines 372--408). \<open>src\<close> is the first \<open>srcSize\<close> bytes of the block
  buffer, those the read callback delivered.
\<close>

definition lz4mtCompress_f ::
  "int \<Rightarrow> ('r, 'w) Lz4MtContext \<Rightarrow> byte list \<Rightarrow> ('r, 'w) Lz4MtContext" where
  "lz4mtCompress_f nBlockCheckSum ctx src =
     (if error ctx then ctx
      else
        let srcSize = int (length src);
            (cmpSize, dst) = compress ctx src srcSize;
            incompressible = (cmpSize \<le> 0);
            cPtr = (if incompressible then src else dst);
            cSize = (if incompressible then srcSize else cmpSize);
            hash = (if nBlockCheckSum \<noteq> 0
                    then XXH32 (take (nat cSize) cPtr) LZ4S_CHECKSUM_SEED else 0);
            ctx1 = (if incompressible
                    then snd (writeBin
                           (snd (writeU32 ctx (word_of_int (cSize OR cIncompressible))))
                           src srcSize)
                    else snd (writeBin (snd (writeU32 ctx (word_of_int cSize))) dst cmpSize))
        in if nBlockCheckSum \<noteq> 0 then snd (writeU32 ctx1 hash) else ctx1)"

text \<open>
  The producer loop (lines 411--430). It ends when \<^verbatim>\<open>readEof\<close> answers true; with a
  callback that never does, the call does not return, which is the value \<open>None\<close>.
\<close>

partial_function (option) lz4mtCompress_loop ::
  "int \<Rightarrow> int \<Rightarrow> bool \<Rightarrow> ('r, 'w) Lz4MtContext \<Rightarrow> Xxh32
     \<Rightarrow> (('r, 'w) Lz4MtContext \<times> Xxh32) option" where
  "lz4mtCompress_loop nBlockMaximumSize nBlockCheckSum streamChecksum' ctx xxhStream =
     (if ctx_readEof ctx then Some (ctx, xxhStream)
      else
        let (src, ctx1) = ctx_read ctx nBlockMaximumSize;
            readSize = int (length src);
            xxhStream1 = (if streamChecksum' then Xxh32_update xxhStream src readSize
                          else xxhStream);
            ctx2 = lz4mtCompress_f nBlockCheckSum ctx1 src
        in lz4mtCompress_loop nBlockMaximumSize nBlockCheckSum streamChecksum' ctx2 xxhStream1)"

text \<open>The header bytes \<open>d[0..writeSize)\<close> built in lines 339--354.\<close>

definition lz4mtCompress_header :: "Lz4MtStreamDescriptor \<Rightarrow> byte list" where
  "lz4mtCompress_header sd =
     (let sumBytes = [flgToChar (flg sd), bdToChar (bd sd)]
            @ (if streamSize (flg sd) \<noteq> 0 then storeU64 (streamSizeValue sd) else [])
            @ (if presetDictionary (flg sd) \<noteq> 0 then storeU32 (dictId sd) else []);
          h = XXH32 sumBytes LZ4S_CHECKSUM_SEED
      in storeU32 LZ4S_MAGICNUMBER @ sumBytes @ [ucast (getCheckBits_FromXXH h)])"

text \<open>
  \<open>lz4mtCompress\<close> returns its return value and the context as it leaves it. \<open>None\<close>
  is a call that does not return: the producer loop runs forever, or
  \<^verbatim>\<open>assert(sd->streamSize)\<close> (line 345) aborts.
\<close>

definition lz4mtCompress ::
  "('r, 'w) Lz4MtContext \<Rightarrow> Lz4MtStreamDescriptor
     \<Rightarrow> (Lz4MtResult \<times> ('r, 'w) Lz4MtContext) option" where
  "lz4mtCompress ctx sd =
     (let r = validateStreamDescriptor sd in
      if LZ4MT_RESULT_OK \<noteq> r
      then (let ctx' = setResult ctx r in Some (result ctx', ctx'))
      else if streamSize (flg sd) \<noteq> 0 \<and> streamSizeValue sd = 0 then None
      else
        let d = lz4mtCompress_header sd;
            writeSize = int (length d);
            (k, ctx1) = ctx_write ctx d writeSize
        in if writeSize \<noteq> k
           then (let ctx' = setResult ctx1 LZ4MT_RESULT_CANNOT_WRITE_HEADER
                 in Some (result ctx', ctx'))
           else
             let nBlockMaximumSize = getBlocksize (blockMaximumSize (bd sd));
                 nBlockCheckSum = (if blockChecksum (flg sd) \<noteq> 0 then 4 else 0);
                 streamChecksum' = (0 \<noteq> streamChecksum (flg sd))
             in Option.bind
                  (lz4mtCompress_loop nBlockMaximumSize nBlockCheckSum streamChecksum' ctx1
                     (Xxh32_init LZ4S_CHECKSUM_SEED))
                  (\<lambda>(ctx2, xxhStream).
                     let (ok, ctx3) = writeU32 ctx2 LZ4S_EOS
                     in if \<not> ok then Some (LZ4MT_RESULT_CANNOT_WRITE_EOS, ctx3)
                        else if streamChecksum'
                        then (let (ok', ctx4) = writeU32 ctx3 (Xxh32_digest xxhStream)
                              in if \<not> ok'
                                 then Some (LZ4MT_RESULT_CANNOT_WRITE_STREAM_CHECKSUM, ctx4)
                                 else Some (LZ4MT_RESULT_OK, ctx4))
                        else Some (LZ4MT_RESULT_OK, ctx3)))"

subsection \<open>lz4mtDecompress (lines 451--663)\<close>

definition ctx_readSkippable ::
  "('r, 'w) Lz4MtContext \<Rightarrow> u32 \<Rightarrow> u32 \<Rightarrow> int \<times> ('r, 'w) Lz4MtContext" where
  "ctx_readSkippable ctx magic size' =
     (let (s, r) = readSkippable ctx (readCtx ctx) magic size' in (s, ctx\<lparr>readCtx := r\<rparr>))"

definition ctx_readSeek :: "('r, 'w) Lz4MtContext \<Rightarrow> int \<Rightarrow> ('r, 'w) Lz4MtContext" where
  "ctx_readSeek ctx offset = ctx\<lparr>readCtx := readSeek ctx (readCtx ctx) offset\<rparr>"

text \<open>
  \<^verbatim>\<open>incompMask = (1 << 31)\<close> is an \<^verbatim>\<open>int\<close>; in \<^verbatim>\<open>srcBits & incompMask\<close> and
  \<^verbatim>\<open>srcBits & ~incompMask\<close> it is converted to \<^verbatim>\<open>uint32_t\<close>.
\<close>

definition incompMask :: u32 where
  "incompMask = word_of_int (sint (push_bit 31 (1 :: 32 word)))"

text \<open>
  The worker \<^verbatim>\<open>f\<close> (lines 552--597), as the block loop calls it in sequential mode:
  with \<open>i = 0\<close> (line 633), so that the wait for the previous future (lines 571--573
  and 587--589) is not taken. It returns its result, the context, the quit flag and the
  stream hasher.
\<close>

definition lz4mtDecompress_f ::
  "int \<Rightarrow> int \<Rightarrow> bool \<Rightarrow> ('r, 'w) Lz4MtContext \<Rightarrow> bool \<Rightarrow> Xxh32
     \<Rightarrow> byte list \<Rightarrow> bool \<Rightarrow> u32
     \<Rightarrow> Lz4MtResult \<times> ('r, 'w) Lz4MtContext \<times> bool \<times> Xxh32" where
  "lz4mtDecompress_f nBlockMaximumSize nBlockCheckSum streamChecksum' ctx quit xxhStream
       src incompressible blockChecksum' =
     (if error ctx \<or> quit then (LZ4MT_RESULT_OK, ctx, quit, xxhStream)
      else
        let srcSize = int (length src)
        in if nBlockCheckSum \<noteq> 0 \<and> XXH32 src LZ4S_CHECKSUM_SEED \<noteq> blockChecksum'
           then (LZ4MT_RESULT_BLOCK_CHECKSUM_MISMATCH, ctx, True, xxhStream)
           else if incompressible
           then (let ctx1 = snd (writeBin ctx src srcSize)
                 in (LZ4MT_RESULT_OK, ctx1, quit,
                     if streamChecksum' then Xxh32_update xxhStream src srcSize
                     else xxhStream))
           else (let (decSize, dst) = decompress ctx src nBlockMaximumSize;
                     ctx1 = snd (writeBin ctx dst decSize)
                 in (LZ4MT_RESULT_OK, ctx1, quit,
                     if streamChecksum' then Xxh32_update xxhStream dst decSize
                     else xxhStream)))"

text \<open>
  The block loop (lines 599--640) on the context, the quit flag, the stream hasher
  and the vector of futures. In sequential mode the worker is called in the loop and
  its result is dropped (line 633); the vector stays empty.

  In parallel mode the worker is launched with \<^verbatim>\<open>std::async\<close> (lines 635--638). From
  the first launch on, the tasks run concurrently with the loop, with one another and
  with the join (lines 642--647): which of them sees the error or the quit flag, and
  what reaches the sink, depends on the schedule, and the order of \<^verbatim>\<open>e.get()\<close> and
  \<^verbatim>\<open>futures[i-1].wait()\<close> is not fixed either. The model does not describe that
  execution: what the loop and the tasks make of the state from the first launch on is
  the parameter \<open>tasks\<close>, a function of the state at the launch and of the block
  launched, about which nothing is assumed (\<open>None\<close>: the call returns nothing). Every
  statement about a run that launches a task holds for sequential mode only.
\<close>

type_synonym ('r, 'w) blocks_state =
  "('r, 'w) Lz4MtContext \<times> bool \<times> Xxh32 \<times> Lz4MtResult list"

type_synonym ('r, 'w) async_tasks =
  "int \<Rightarrow> int \<Rightarrow> bool \<Rightarrow> ('r, 'w) blocks_state \<Rightarrow> byte list \<Rightarrow> bool \<Rightarrow> u32
     \<Rightarrow> ('r, 'w) blocks_state option"

partial_function (option) lz4mtDecompress_blocks ::
  "('r, 'w) async_tasks \<Rightarrow> int \<Rightarrow> int \<Rightarrow> bool \<Rightarrow> bool
     \<Rightarrow> ('r, 'w) blocks_state \<Rightarrow> ('r, 'w) blocks_state option" where
  "lz4mtDecompress_blocks tasks nBlockMaximumSize nBlockCheckSum streamChecksum' singleThread st =
     (let (ctx, quit, xxhStream, futures) = st
      in if \<not> quit \<and> \<not> ctx_readEof ctx
         then
           let (srcBits, ctx1) = readU32 ctx
           in if error ctx1
              then Some (setResult ctx1 LZ4MT_RESULT_CANNOT_READ_BLOCK_SIZE, True,
                         xxhStream, futures)
              else if LZ4S_EOS = srcBits then Some (ctx1, quit, xxhStream, futures)
              else
                let incompressible = (0 \<noteq> (srcBits AND incompMask));
                    srcSize = sint (srcBits AND NOT incompMask);
                    (src, ctx2) = ctx_read ctx1 srcSize
                in if srcSize \<noteq> int (length src) \<or> error ctx2
                   then Some (setResult ctx2 LZ4MT_RESULT_CANNOT_READ_BLOCK_DATA, True,
                              xxhStream, futures)
                   else
                     let (blockCheckSum, ctx3) =
                           (if nBlockCheckSum \<noteq> 0 then readU32 ctx2 else (0, ctx2))
                     in if error ctx3
                        then Some (setResult ctx3 LZ4MT_RESULT_CANNOT_READ_BLOCK_CHECKSUM,
                                   True, xxhStream, futures)
                        else if singleThread
                        then
                          let (r, ctx4, quit4, xxhStream4) =
                                lz4mtDecompress_f nBlockMaximumSize nBlockCheckSum
                                  streamChecksum' ctx3 quit xxhStream src incompressible
                                  blockCheckSum
                          in lz4mtDecompress_blocks tasks nBlockMaximumSize nBlockCheckSum
                               streamChecksum' singleThread
                               (ctx4, quit4, xxhStream4, futures)
                        else tasks nBlockMaximumSize nBlockCheckSum streamChecksum'
                               (ctx3, quit, xxhStream, futures) src incompressible
                               blockCheckSum
         else Some st)"

text \<open>
  Joining the tasks (lines 642--647): the results of the futures are stored in vector
  order. In sequential mode the vector is empty.
\<close>

definition lz4mtDecompress_join ::
  "('r, 'w) Lz4MtContext \<Rightarrow> Lz4MtResult list \<Rightarrow> ('r, 'w) Lz4MtContext" where
  "lz4mtDecompress_join ctx futures =
     foldl (\<lambda>c r. if LZ4MT_RESULT_OK \<noteq> r then setResult c r else c) ctx futures"

text \<open>
  The frame header after the magic number (lines 492--539). The flag is false where
  the source leaves the frame loop with \<^verbatim>\<open>break\<close>.
\<close>

definition lz4mtDecompress_header ::
  "('r, 'w) Lz4MtContext \<Rightarrow> Lz4MtStreamDescriptor
     \<Rightarrow> bool \<times> ('r, 'w) Lz4MtContext \<times> Lz4MtStreamDescriptor" where
  "lz4mtDecompress_header ctx sd =
     (let (d2, ctx1) = ctx_read ctx 2
      in if 2 \<noteq> int (length d2)
         then (False, setResult ctx1 LZ4MT_RESULT_INVALID_HEADER, sd)
         else
           let sd1 = sd\<lparr>flg := charToFlg (d2 ! 0), bd := charToBc (d2 ! 1)\<rparr>;
               r = validateStreamDescriptor sd1
           in if LZ4MT_RESULT_OK \<noteq> r then (False, setResult ctx1 r, sd1)
              else
                let nExInfo = (if streamSize (flg sd1) \<noteq> 0 then 8 else 0)
                            + (if presetDictionary (flg sd1) \<noteq> 0 then 4 else 0)
                            + 1;
                    (ex, ctx2) = ctx_read ctx1 nExInfo
                in if nExInfo \<noteq> int (length ex)
                   then (False, setResult ctx2 LZ4MT_RESULT_INVALID_HEADER, sd1)
                   else
                     let p1 = (if streamSize (flg sd1) \<noteq> 0 then 8 else 0);
                         sd2 = (if streamSize (flg sd1) \<noteq> 0
                                then sd1\<lparr>streamSizeValue := loadU64 ex\<rparr> else sd1);
                         p2 = p1 + (if presetDictionary (flg sd1) \<noteq> 0 then 4 else 0);
                         sd3 = (if presetDictionary (flg sd1) \<noteq> 0
                                then sd2\<lparr>dictId := loadU32 (drop p1 ex)\<rparr> else sd2);
                         calHash32 = XXH32 (d2 @ take p2 ex) LZ4S_CHECKSUM_SEED;
                         calHash = (ucast (getCheckBits_FromXXH calHash32) :: byte);
                         srcHash = ex ! p2
                     in if srcHash \<noteq> calHash
                        then (False, setResult ctx2 LZ4MT_RESULT_INVALID_HEADER_CHECKSUM, sd3)
                        else (True, ctx2, sd3))"

text \<open>
  The stream checksum after the blocks (lines 649--659). The flag is false where the
  source leaves the frame loop with \<^verbatim>\<open>break\<close>.
\<close>

definition lz4mtDecompress_trailer ::
  "bool \<Rightarrow> ('r, 'w) Lz4MtContext \<Rightarrow> Xxh32 \<Rightarrow> bool \<times> ('r, 'w) Lz4MtContext" where
  "lz4mtDecompress_trailer streamChecksum' ctx xxhStream =
     (if \<not> error ctx \<and> streamChecksum'
      then
        let (srcStreamChecksum, ctx1) = readU32 ctx
        in if error ctx1
           then (False, setResult ctx1 LZ4MT_RESULT_CANNOT_READ_STREAM_CHECKSUM)
           else if Xxh32_digest xxhStream \<noteq> srcStreamChecksum
           then (False, setResult ctx1 LZ4MT_RESULT_STREAM_CHECKSUM_MISMATCH)
           else (True, ctx1)
      else (True, ctx))"

text \<open>The frame loop (lines 461--660).\<close>

partial_function (option) lz4mtDecompress_frames ::
  "('r, 'w) async_tasks \<Rightarrow> ('r, 'w) Lz4MtContext \<times> Lz4MtStreamDescriptor \<times> bool
     \<Rightarrow> (('r, 'w) Lz4MtContext \<times> Lz4MtStreamDescriptor) option" where
  "lz4mtDecompress_frames tasks st =
     (let (ctx, sd, quit) = st
      in if \<not> quit \<and> \<not> error ctx \<and> \<not> ctx_readEof ctx
         then
           let (magic, ctx1) = readU32 ctx
           in if error ctx1
              then (if ctx_readEof ctx1 then Some (setResult ctx1 LZ4MT_RESULT_OK, sd)
                    else Some (setResult ctx1 LZ4MT_RESULT_INVALID_HEADER, sd))
              else if isSkippableMagicNumber magic
              then
                let (size', ctx2) = readU32 ctx1
                in if error ctx2 then Some (setResult ctx2 LZ4MT_RESULT_INVALID_HEADER, sd)
                   else
                     let (s, ctx3) = ctx_readSkippable ctx2 magic size'
                     in if s < 0 \<or> error ctx3
                        then Some (setResult ctx3 LZ4MT_RESULT_INVALID_HEADER, sd)
                        else lz4mtDecompress_frames tasks (ctx3, sd, quit)
              else if magic \<noteq> LZ4S_MAGICNUMBER
              then Some (setResult (ctx_readSeek ctx1 (- 4))
                           LZ4MT_RESULT_INVALID_MAGIC_NUMBER, sd)
              else
                let (ok, ctx2, sd2) = lz4mtDecompress_header ctx1 sd
                in if \<not> ok then Some (ctx2, sd2)
                   else
                     let nBlockMaximumSize = getBlocksize (blockMaximumSize (bd sd2));
                         nBlockCheckSum = (if blockChecksum (flg sd2) \<noteq> 0 then 4 else 0);
                         streamChecksum' = (0 \<noteq> streamChecksum (flg sd2));
                         singleThread = (0 \<noteq> (mode ctx2 AND LZ4MT_MODE_SEQUENTIAL))
                     in Option.bind
                          (lz4mtDecompress_blocks tasks nBlockMaximumSize nBlockCheckSum
                             streamChecksum' singleThread
                             (ctx2, quit, Xxh32_init LZ4S_CHECKSUM_SEED, []))
                          (\<lambda>(ctx3, quit3, xxhStream, futures).
                             let ctx4 = lz4mtDecompress_join ctx3 futures;
                                 (ok', ctx5) = lz4mtDecompress_trailer streamChecksum' ctx4
                                                 xxhStream
                             in if \<not> ok' then Some (ctx5, sd2)
                                else lz4mtDecompress_frames tasks (ctx5, sd2, quit3))
         else Some (ctx, sd))"

text \<open>
  \<open>lz4mtDecompress\<close> returns its return value, the context and the descriptor it
  stored through \<^verbatim>\<open>sd\<close>; \<open>None\<close> is a call that does not return. Its first
  argument stands for the concurrent tasks of parallel mode (see the block loop) and
  plays no part in sequential mode.
\<close>

definition lz4mtDecompress ::
  "('r, 'w) async_tasks \<Rightarrow> ('r, 'w) Lz4MtContext \<Rightarrow> Lz4MtStreamDescriptor
     \<Rightarrow> (Lz4MtResult \<times> ('r, 'w) Lz4MtContext \<times> Lz4MtStreamDescriptor) option" where
  "lz4mtDecompress tasks ctx sd =
     Option.bind (lz4mtDecompress_frames tasks (setResult ctx LZ4MT_RESULT_OK, sd, False))
       (\<lambda>(ctx', sd'). Some (result ctx', ctx', sd'))"

text \<open>
  The argument for a call in sequential mode, where no task is launched: a parameter
  that returns nothing.
\<close>

definition no_tasks :: "('r, 'w) async_tasks" where
  "no_tasks nBlockMaximumSize nBlockCheckSum streamChecksum' st src incompressible blockCheckSum
     = None"

subsection \<open>In-memory callbacks\<close>

text \<open>
  Modelled from the spec: the caller's I/O callbacks are not part of the library. The
  spec's section on external interfaces fixes their contract: \<^verbatim>\<open>read\<close> delivers the
  bytes asked for and is short only at the end of the source, \<^verbatim>\<open>readEof\<close> is true iff
  the source is exhausted, \<^verbatim>\<open>readSeek\<close> repositions relatively, \<^verbatim>\<open>readSkippable\<close>
  consumes \<open>size\<close> bytes or fails with a negative value, and \<^verbatim>\<open>write\<close> writes all
  \<open>n\<close> bytes. The source is a byte sequence with a cursor, the sink the sequence of
  the bytes written so far.
\<close>

record mem_reader =
  consumed :: "byte list"
  remaining :: "byte list"

definition mem_read :: "mem_reader \<Rightarrow> int \<Rightarrow> byte list \<times> mem_reader" where
  "mem_read r n =
     (take (nat n) (remaining r),
      \<lparr> consumed = consumed r @ take (nat n) (remaining r),
        remaining = drop (nat n) (remaining r) \<rparr>)"

definition mem_readEof :: "mem_reader \<Rightarrow> bool" where
  "mem_readEof r \<longleftrightarrow> remaining r = []"

definition mem_readSeek :: "mem_reader \<Rightarrow> int \<Rightarrow> mem_reader" where
  "mem_readSeek r offset =
     (let whole = consumed r @ remaining r;
          p = nat (int (length (consumed r)) + offset)
      in \<lparr> consumed = take p whole, remaining = drop p whole \<rparr>)"

definition mem_readSkippable :: "mem_reader \<Rightarrow> u32 \<Rightarrow> u32 \<Rightarrow> int \<times> mem_reader" where
  "mem_readSkippable r magic size' =
     (if unat size' \<le> length (remaining r)
      then (int (unat size'),
            \<lparr> consumed = consumed r @ take (unat size') (remaining r),
              remaining = drop (unat size') (remaining r) \<rparr>)
      else (- 1, r))"

definition mem_write :: "byte list \<Rightarrow> byte list \<Rightarrow> int \<times> byte list" where
  "mem_write w bs = (int (length bs), w @ bs)"

text \<open>
  A context as \<^verbatim>\<open>lz4mtInitContext\<close> returns it (result OK), with the in-memory
  callbacks, a block codec and a mode installed, reading \<open>input\<close> and writing to an
  empty sink.
\<close>

definition mem_context ::
  "(byte list \<Rightarrow> int \<Rightarrow> int \<times> byte list) \<Rightarrow> (byte list \<Rightarrow> int \<Rightarrow> int \<times> byte list)
     \<Rightarrow> int \<Rightarrow> byte list \<Rightarrow> (mem_reader, byte list) Lz4MtContext" where
  "mem_context cmp dec m input = \<lparr>
     result = LZ4MT_RESULT_OK,
     readCtx = \<lparr> consumed = [], remaining = input \<rparr>,
     read = mem_read,
     readEof = mem_readEof,
     readSkippable = mem_readSkippable,
     readSeek = mem_readSeek,
     writeCtx = [],
     write' = mem_write,
     compress = cmp,
     compressBound = (\<lambda>isize. isize + isize div 255 + 16),
     decompress = dec,
     mode = m \<rparr>"

text \<open>
  Modelled from the spec: a second source, for inputs that arrive in pieces (a pipe or
  a socket). Its state is the list of the pieces still to come; a read returns at most
  the next piece, so where every piece is at most a block long the pieces are the
  partition of the input into the blocks the producer sees.
\<close>

definition chunk_read :: "byte list list \<Rightarrow> int \<Rightarrow> byte list \<times> byte list list" where
  "chunk_read r n =
     (case r of
        [] \<Rightarrow> ([], [])
      | x # xs \<Rightarrow>
          (take (nat n) x, if drop (nat n) x = [] then xs else drop (nat n) x # xs))"

definition chunk_readEof :: "byte list list \<Rightarrow> bool" where
  "chunk_readEof r \<longleftrightarrow> r = []"

definition chunk_context ::
  "(byte list \<Rightarrow> int \<Rightarrow> int \<times> byte list) \<Rightarrow> (byte list \<Rightarrow> int \<Rightarrow> int \<times> byte list)
     \<Rightarrow> int \<Rightarrow> byte list list \<Rightarrow> (byte list list, byte list) Lz4MtContext" where
  "chunk_context cmp dec m pieces = \<lparr>
     result = LZ4MT_RESULT_OK,
     readCtx = pieces,
     read = chunk_read,
     readEof = chunk_readEof,
     readSkippable = (\<lambda>r magic size'. (- 1, r)),
     readSeek = (\<lambda>r offset. r),
     writeCtx = [],
     write' = mem_write,
     compress = cmp,
     compressBound = (\<lambda>isize. isize + isize div 255 + 16),
     decompress = dec,
     mode = m \<rparr>"

text \<open>
  Two block codecs to run the pipeline on. \<open>store_compress\<close> never compresses (it
  returns 0, so every block is stored). \<open>rle_compress\<close> packs a block of 3 to 255
  equal bytes into its length and the byte; \<open>rle_decompress\<close> is its inverse.
\<close>

definition store_compress :: "byte list \<Rightarrow> int \<Rightarrow> int \<times> byte list" where
  "store_compress src maxOutputSize = (0, replicate (length src) 0)"

definition store_decompress :: "byte list \<Rightarrow> int \<Rightarrow> int \<times> byte list" where
  "store_decompress src maxOutputSize = (- 1, replicate (nat maxOutputSize) 0)"

definition rle_compress :: "byte list \<Rightarrow> int \<Rightarrow> int \<times> byte list" where
  "rle_compress src maxOutputSize =
     (if 3 \<le> length src \<and> length src \<le> 255 \<and> src = replicate (length src) (hd src)
      then (2, [of_nat (length src), hd src] @ replicate (length src - 2) 0)
      else (0, replicate (length src) 0))"

definition rle_decompress :: "byte list \<Rightarrow> int \<Rightarrow> int \<times> byte list" where
  "rle_decompress src maxOutputSize =
     (if length src = 2 \<and> int (unat (src ! 0)) \<le> maxOutputSize
      then (int (unat (src ! 0)),
            replicate (unat (src ! 0)) (src ! 1)
              @ replicate (nat maxOutputSize - unat (src ! 0)) 0)
      else (- 1, replicate (nat maxOutputSize) 0))"

subsection \<open>Notions for stating the properties\<close>

text \<open>A context that runs on the in-memory callbacks.\<close>

definition mem_io :: "(mem_reader, byte list) Lz4MtContext \<Rightarrow> bool" where
  "mem_io ctx \<longleftrightarrow> read ctx = mem_read \<and> readEof ctx = mem_readEof \<and> write' ctx = mem_write"

text \<open>The context after \<open>out\<close> has been appended to the in-memory sink.\<close>

definition ctx_emit :: "('r, byte list) Lz4MtContext \<Rightarrow> byte list \<Rightarrow> ('r, byte list) Lz4MtContext" where
  "ctx_emit ctx out = ctx\<lparr>writeCtx := writeCtx ctx @ out\<rparr>"

text \<open>The context after the next \<open>n\<close> bytes of the in-memory source have been read.\<close>

definition ctx_skip :: "(mem_reader, 'w) Lz4MtContext \<Rightarrow> nat \<Rightarrow> (mem_reader, 'w) Lz4MtContext" where
  "ctx_skip ctx n = ctx\<lparr>readCtx :=
     \<lparr> consumed = consumed (readCtx ctx) @ take n (remaining (readCtx ctx)),
       remaining = drop n (remaining (readCtx ctx)) \<rparr>\<rparr>"

text \<open>
  The contract of the bounded-output compressor for a block \<open>src\<close>: the destination
  buffer has \<open>srcSize\<close> bytes (line 378), the return value is at most
  \<^verbatim>\<open>maxOutputSize\<close>, which is \<open>srcSize\<close> (line 383), and \<open>srcSize\<close> is a C \<^verbatim>\<open>int\<close>.
\<close>

definition compress_contract :: "(byte list \<Rightarrow> int \<Rightarrow> int \<times> byte list) \<Rightarrow> byte list \<Rightarrow> bool" where
  "compress_contract cmp src \<longleftrightarrow>
     length src < 2 ^ 31
     \<and> length (snd (cmp src (int (length src)))) = length src
     \<and> fst (cmp src (int (length src))) \<le> int (length src)"

text \<open>
  Modelled from the spec: a block record on the wire, as the frame layout gives it:
  the little-endian size word with the high bit as incompressible flag, the payload,
  and the xxHash32 of the payload when block checksums are on.
\<close>

definition block_record :: "int \<Rightarrow> bool \<Rightarrow> byte list \<Rightarrow> byte list" where
  "block_record nBlockCheckSum incompressible payload =
     storeU32 (word_of_int (int (length payload)) OR (if incompressible then incompMask else 0))
     @ payload
     @ (if nBlockCheckSum \<noteq> 0 then storeU32 (XXH32 payload LZ4S_CHECKSUM_SEED) else [])"

text \<open>The flag and the payload the compress worker chooses for a block (lines 385--387).\<close>

definition compressed_block ::
  "(byte list \<Rightarrow> int \<Rightarrow> int \<times> byte list) \<Rightarrow> byte list \<Rightarrow> bool \<times> byte list" where
  "compressed_block cmp src =
     (let (cmpSize, dst) = cmp src (int (length src))
      in if cmpSize \<le> 0 then (True, src) else (False, take (nat cmpSize) dst))"

text \<open>The record of a block of input: the wire record of its flag and payload.\<close>

definition compressed_record ::
  "(byte list \<Rightarrow> int \<Rightarrow> int \<times> byte list) \<Rightarrow> int \<Rightarrow> byte list \<Rightarrow> byte list" where
  "compressed_record cmp nBlockCheckSum src =
     block_record nBlockCheckSum (fst (compressed_block cmp src)) (snd (compressed_block cmp src))"

text \<open>
  What the decompress worker writes for a wire block (flag, payload): the payload
  itself, or the first \<open>decSize\<close> bytes of the decoder's destination buffer.
\<close>

definition block_content ::
  "(byte list \<Rightarrow> int \<Rightarrow> int \<times> byte list) \<Rightarrow> int \<Rightarrow> bool \<times> byte list \<Rightarrow> byte list" where
  "block_content dec nBlockMaximumSize b =
     (if fst b then snd b
      else take (nat (fst (dec (snd b) nBlockMaximumSize))) (snd (dec (snd b) nBlockMaximumSize)))"

text \<open>
  A wire block the decoder takes without an error: its size fits 31 bits, its size
  word is not the EOS word, and if it is compressed the decoder returns a length
  within its destination buffer.
\<close>

definition block_ok ::
  "(byte list \<Rightarrow> int \<Rightarrow> int \<times> byte list) \<Rightarrow> int \<Rightarrow> bool \<times> byte list \<Rightarrow> bool" where
  "block_ok dec nBlockMaximumSize b \<longleftrightarrow>
     length (snd b) < 2 ^ 31 \<and> (fst b \<or> snd b \<noteq> [])
     \<and> (fst b \<or> (0 \<le> fst (dec (snd b) nBlockMaximumSize)
                 \<and> nat (fst (dec (snd b) nBlockMaximumSize))
                      \<le> length (snd (dec (snd b) nBlockMaximumSize))))"

text \<open>
  The callbacks are inverse block codecs for blocks of at most \<open>B\<close> bytes: the
  compressor keeps its contract, and the decoder turns the compressor's output back
  into the block and returns the block's length.
\<close>

definition codec_inverse ::
  "(byte list \<Rightarrow> int \<Rightarrow> int \<times> byte list) \<Rightarrow> (byte list \<Rightarrow> int \<Rightarrow> int \<times> byte list)
     \<Rightarrow> int \<Rightarrow> bool" where
  "codec_inverse cmp dec B \<longleftrightarrow>
     (\<forall>src. int (length src) \<le> B \<longrightarrow>
        compress_contract cmp src
        \<and> (0 < fst (cmp src (int (length src))) \<longrightarrow>
             fst (dec (take (nat (fst (cmp src (int (length src)))))
                        (snd (cmp src (int (length src))))) B) = int (length src)
             \<and> take (length src)
                  (snd (dec (take (nat (fst (cmp src (int (length src)))))
                              (snd (cmp src (int (length src))))) B)) = src))"

text \<open>The input cut into blocks of \<open>n\<close> bytes, the last one possibly shorter.\<close>

function blocks_of :: "nat \<Rightarrow> 'a list \<Rightarrow> 'a list list" where
  "blocks_of n xs = (if n = 0 \<or> xs = [] then [] else take n xs # blocks_of n (drop n xs))"
  by pat_completeness auto
termination
  by (relation "measure (\<lambda>(n, xs). length xs)") auto

text \<open>
  Modelled from the spec: a frame on the wire for input \<open>S\<close>, as the frame layout
  gives it: the header, the records of the blocks of \<open>S\<close>, the EOS word, and the
  xxHash32 of \<open>S\<close> when stream checksums are on.
\<close>

definition frame_bytes ::
  "(byte list \<Rightarrow> int \<Rightarrow> int \<times> byte list) \<Rightarrow> Lz4MtStreamDescriptor \<Rightarrow> byte list \<Rightarrow> byte list" where
  "frame_bytes cmp sd S =
     lz4mtCompress_header sd
     @ concat (map (compressed_record cmp (if blockChecksum (flg sd) \<noteq> 0 then 4 else 0))
                 (blocks_of (nat (getBlocksize (blockMaximumSize (bd sd)))) S))
     @ storeU32 LZ4S_EOS
     @ (if streamChecksum (flg sd) \<noteq> 0 then storeU32 (XXH32 S LZ4S_CHECKSUM_SEED) else [])"

text \<open>
  The flag fields of a descriptor hold 0 or 1, as \<^verbatim>\<open>charToFlg\<close> and
  \<^verbatim>\<open>lz4mtInitStreamDescriptor\<close> produce them.
\<close>

definition flags_are_bits :: "Lz4MtStreamDescriptor \<Rightarrow> bool" where
  "flags_are_bits sd \<longleftrightarrow>
     (streamChecksum (flg sd) = 0 \<or> streamChecksum (flg sd) = 1)
     \<and> (streamSize (flg sd) = 0 \<or> streamSize (flg sd) = 1)
     \<and> (blockChecksum (flg sd) = 0 \<or> blockChecksum (flg sd) = 1)
     \<and> (blockIndependance (flg sd) = 0 \<or> blockIndependance (flg sd) = 1)"

section \<open>Properties\<close>

subsection \<open>Little-endian words and the block-size word\<close>

lemma length_storeU32: "length (storeU32 v) = 4"
  by (simp add: storeU32_def)

lemma loadU32_storeU32: "loadU32 (storeU32 v @ xs) = v"
proof (rule bit_word_eqI)
  fix n assume n: "n < LENGTH(32)"
  then consider "n < 8" | "8 \<le> n" "n < 16" | "16 \<le> n" "n < 24" | "24 \<le> n" "n < 32"
    by fastforce
  then show "bit (loadU32 (storeU32 v @ xs)) n = bit v n"
    unfolding loadU32_def storeU32_def
    by cases (auto simp add: bit_simps)
qed

lemma cIncompressible_eq: "cIncompressible = - (2 ^ 31)"
  by (simp add: cIncompressible_def nBlockSize_def)

lemma incompMask_exp: "incompMask = 2 ^ 31"
  by (simp add: incompMask_def)

lemma not_incompMask: "NOT incompMask = mask 31"
  by (simp add: incompMask_def mask_eq_exp_minus_1)

lemma and_incompMask: "(w :: u32) AND incompMask \<noteq> 0 \<longleftrightarrow> bit w 31"
  unfolding incompMask_exp using and_exp_eq_0_iff_not_bit[of w 31] by blast

lemma sint_low: "sint ((w :: u32) AND NOT incompMask) = take_bit 31 (uint w)"
proof -
  have "sint (take_bit 31 w) = signed_take_bit 31 (take_bit 31 (uint w))"
    by (simp add: sint_uint unsigned_take_bit_eq)
  also have "\<dots> = take_bit 31 (uint w)"
  proof (rule signed_take_bit_int_eq_self)
    show "- (2 ^ 31) \<le> take_bit 31 (uint w)"
      by (rule order_trans[of _ 0]) simp_all
    show "take_bit 31 (uint w) < 2 ^ 31"
      by (rule take_bit_int_less_exp)
  qed
  finally show ?thesis by (simp add: not_incompMask take_bit_eq_mask[symmetric])
qed

lemma uint_low: "uint ((w :: u32) AND NOT incompMask) = take_bit 31 (uint w)"
  by (simp add: not_incompMask take_bit_eq_mask[symmetric] unsigned_take_bit_eq)

lemma sizeword_plain:
  assumes "0 \<le> n" "n < 2 ^ 31"
  shows "\<not> bit (word_of_int n :: u32) 31"
    and "sint ((word_of_int n :: u32) AND NOT incompMask) = n"
proof -
  have "\<not> bit n 31" using assms by (simp add: bit_iff_odd)
  then show "\<not> bit (word_of_int n :: u32) 31" by (simp add: bit_simps)
  show "sint ((word_of_int n :: u32) AND NOT incompMask) = n"
    using assms by (simp add: sint_low uint_word_of_int_eq take_bit_int_eq_self)
qed

lemma sizeword_flag:
  assumes "0 \<le> n" "n < 2 ^ 31"
  shows "bit (word_of_int (n OR cIncompressible) :: u32) 31"
    and "sint ((word_of_int (n OR cIncompressible) :: u32) AND NOT incompMask) = n"
proof -
  have m: "cIncompressible = (NOT (mask 31) :: int)"
    unfolding cIncompressible_eq by (simp only: minus_exp_eq_not_mask)
  show "bit (word_of_int (n OR cIncompressible) :: u32) 31"
    unfolding m by (simp add: bit_simps)
  have "take_bit 31 (n OR cIncompressible) = n"
    unfolding m using assms by (simp add: take_bit_int_eq_self take_bit_not_mask_eq_0)
  then show "sint ((word_of_int (n OR cIncompressible) :: u32) AND NOT incompMask) = n"
    by (simp add: sint_low uint_word_of_int_eq)
qed

subsection \<open>The sticky result\<close>

lemma setResult_specific:
  "result ctx \<noteq> LZ4MT_RESULT_OK \<Longrightarrow> result ctx \<noteq> LZ4MT_RESULT_ERROR \<Longrightarrow> setResult ctx r = ctx"
  by (auto simp: setResult_def)

lemma setResult_fresh:
  "result ctx = LZ4MT_RESULT_OK \<or> result ctx = LZ4MT_RESULT_ERROR \<Longrightarrow>
   setResult ctx r = ctx\<lparr>result := r\<rparr>"
  by (auto simp: setResult_def)

lemma foldl_setResult_specific:
  "result ctx \<noteq> LZ4MT_RESULT_OK \<Longrightarrow> result ctx \<noteq> LZ4MT_RESULT_ERROR \<Longrightarrow>
   foldl setResult ctx rs = ctx"
  by (induction rs) (simp_all add: setResult_specific)

lemma join_specific:
  "result ctx \<noteq> LZ4MT_RESULT_OK \<Longrightarrow> result ctx \<noteq> LZ4MT_RESULT_ERROR \<Longrightarrow>
   lz4mtDecompress_join ctx rs = ctx"
  unfolding lz4mtDecompress_join_def
  by (induction rs) (simp_all add: setResult_specific)

lemma join_OK: "lz4mtDecompress_join ctx (replicate n LZ4MT_RESULT_OK) = ctx"
  unfolding lz4mtDecompress_join_def by (induction n) simp_all

lemma decompress_f_inert:
  "error ctx \<or> quit \<Longrightarrow>
   lz4mtDecompress_f B c s ctx quit xxh src inc bc = (LZ4MT_RESULT_OK, ctx, quit, xxh)"
  by (simp add: lz4mtDecompress_f_def)

text \<open>
  C9. The result field is sticky: \<open>setResult\<close> changes it only when it holds OK or
  ERROR, so a specific code survives every later \<open>setResult\<close>, any sequence of them
  and the join of any task results. A decompress worker that finds an error or the
  quit flag at entry returns OK and leaves the context, the flag and the hasher as
  they are, and joining its result leaves the context as it is.
\<close>

theorem setResult_sticky:
  "(result (setResult ctx r) \<noteq> result ctx \<longrightarrow>
      result ctx = LZ4MT_RESULT_OK \<or> result ctx = LZ4MT_RESULT_ERROR)
   \<and> (result ctx \<noteq> LZ4MT_RESULT_OK \<and> result ctx \<noteq> LZ4MT_RESULT_ERROR \<longrightarrow>
        setResult ctx r = ctx \<and> foldl setResult ctx rs = ctx
        \<and> lz4mtDecompress_join ctx rs = ctx)
   \<and> (error ctx \<or> quit \<longrightarrow>
        lz4mtDecompress_f B c s ctx quit xxh src inc bc = (LZ4MT_RESULT_OK, ctx, quit, xxh)
        \<and> lz4mtDecompress_join ctx [fst (lz4mtDecompress_f B c s ctx quit xxh src inc bc)]
            = ctx)"
proof (intro conjI impI)
  assume "result (setResult ctx r) \<noteq> result ctx"
  then show "result ctx = LZ4MT_RESULT_OK \<or> result ctx = LZ4MT_RESULT_ERROR"
    by (auto simp: setResult_def split: if_splits)
next
  assume "result ctx \<noteq> LZ4MT_RESULT_OK \<and> result ctx \<noteq> LZ4MT_RESULT_ERROR"
  then show "setResult ctx r = ctx" and "foldl setResult ctx rs = ctx"
    and "lz4mtDecompress_join ctx rs = ctx"
    by (simp_all add: setResult_specific foldl_setResult_specific join_specific)
next
  assume a: "error ctx \<or> quit"
  then show "lz4mtDecompress_f B c s ctx quit xxh src inc bc = (LZ4MT_RESULT_OK, ctx, quit, xxh)"
    by (rule decompress_f_inert)
  then show "lz4mtDecompress_join ctx [fst (lz4mtDecompress_f B c s ctx quit xxh src inc bc)] = ctx"
    by (simp add: lz4mtDecompress_join_def)
qed

theorem setResult_sticky_witness:
  "setResult ((mem_context store_compress store_decompress 0 [])
        \<lparr>result := LZ4MT_RESULT_CANNOT_READ_BLOCK_DATA\<rparr>) LZ4MT_RESULT_STREAM_CHECKSUM_MISMATCH
     = (mem_context store_compress store_decompress 0 [])
        \<lparr>result := LZ4MT_RESULT_CANNOT_READ_BLOCK_DATA\<rparr>
   \<and> lz4mtDecompress_f 65536 4 True
        ((mem_context store_compress store_decompress 0 [])
           \<lparr>result := LZ4MT_RESULT_CANNOT_READ_BLOCK_DATA\<rparr>)
        False (Xxh32_init 0) [1, 2, 3] True 0
     = (LZ4MT_RESULT_OK,
        (mem_context store_compress store_decompress 0 [])
           \<lparr>result := LZ4MT_RESULT_CANNOT_READ_BLOCK_DATA\<rparr>,
        False, Xxh32_init 0)"
  using setResult_sticky
    [of "(mem_context store_compress store_decompress 0 [])
           \<lparr>result := LZ4MT_RESULT_CANNOT_READ_BLOCK_DATA\<rparr>"
        LZ4MT_RESULT_STREAM_CHECKSUM_MISMATCH "[]" False 65536 4 True "Xxh32_init 0"
        "[1, 2, 3]" True 0]
  by (simp add: error_def mem_context_def)

subsection \<open>The guarded I/O helpers\<close>

lemma helpers_inert:
  "result ctx \<noteq> LZ4MT_RESULT_OK \<Longrightarrow>
     readU32 ctx = (0, ctx) \<and> writeU32 ctx v = (False, ctx) \<and> writeBin ctx p n = (False, ctx)"
  by (simp add: readU32_def writeU32_def writeBin_def error_def)

lemma compress_f_inert: "error ctx \<Longrightarrow> lz4mtCompress_f c ctx src = ctx"
  by (simp add: lz4mtCompress_f_def)

lemma ctx_read_result: "result (snd (ctx_read ctx n)) = result ctx"
  by (simp add: ctx_read_def split: prod.splits)

lemma ctx_read_writeCtx: "writeCtx (snd (ctx_read ctx n)) = writeCtx ctx"
  by (simp add: ctx_read_def split: prod.splits)

lemma compress_loop_inert:
  assumes "lz4mtCompress_loop B c s ctx xxh = Some y"
  shows "error ctx \<longrightarrow> writeCtx (fst y) = writeCtx ctx \<and> result (fst y) = result ctx"
proof (rule lz4mtCompress_loop.raw_induct
    [where P = "\<lambda>B c s ctx xxh y.
        error ctx \<longrightarrow> writeCtx (fst y) = writeCtx ctx \<and> result (fst y) = result ctx",
     OF _ assms])
  fix loop :: "int \<Rightarrow> int \<Rightarrow> bool \<Rightarrow> ('a, 'b) Lz4MtContext \<Rightarrow> Xxh32
      \<Rightarrow> (('a, 'b) Lz4MtContext \<times> Xxh32) option"
  fix B c s ctx xxh y
  assume IH: "\<And>B c s ctx xxh y. loop B c s ctx xxh = Some y \<Longrightarrow>
      error ctx \<longrightarrow> writeCtx (fst y) = writeCtx ctx \<and> result (fst y) = result ctx"
  assume body: "(if ctx_readEof ctx then Some (ctx, xxh)
      else let (src, ctx1) = ctx_read ctx B;
               readSize = int (length src);
               xxhStream1 = if s then Xxh32_update xxh src readSize else xxh;
               ctx2 = lz4mtCompress_f c ctx1 src
           in loop B c s ctx2 xxhStream1) = Some y"
  show "error ctx \<longrightarrow> writeCtx (fst y) = writeCtx ctx \<and> result (fst y) = result ctx"
  proof (intro impI)
    assume e: "error ctx"
    show "writeCtx (fst y) = writeCtx ctx \<and> result (fst y) = result ctx"
    proof (cases "ctx_readEof ctx")
      case True
      with body show ?thesis by auto
    next
      case False
      obtain src ctx1 where r: "ctx_read ctx B = (src, ctx1)" by force
      have e1: "error ctx1" using e ctx_read_result[of ctx B] r by (simp add: error_def)
      from body False r e1 have
        "loop B c s ctx1 (if s then Xxh32_update xxh src (int (length src)) else xxh) = Some y"
        by (simp add: compress_f_inert Let_def)
      from IH[OF this] e1 show ?thesis
        using ctx_read_result[of ctx B] ctx_read_writeCtx[of ctx B] r by simp
    qed
  qed
qed

subsection \<open>Running on the in-memory callbacks\<close>

lemma ctx_emit_simps [simp]:
  "result (ctx_emit ctx out) = result ctx"
  "readCtx (ctx_emit ctx out) = readCtx ctx"
  "read (ctx_emit ctx out) = read ctx"
  "readEof (ctx_emit ctx out) = readEof ctx"
  "writeCtx (ctx_emit ctx out) = writeCtx ctx @ out"
  "write' (ctx_emit ctx out) = write' ctx"
  "compress (ctx_emit ctx out) = compress ctx"
  "decompress (ctx_emit ctx out) = decompress ctx"
  "mode (ctx_emit ctx out) = mode ctx"
  "error (ctx_emit ctx out) = error ctx"
  "ctx_emit (ctx_emit ctx a) b = ctx_emit ctx (a @ b)"
  "ctx_emit ctx [] = ctx"
  "ctx_readEof (ctx_emit ctx out) = ctx_readEof ctx"
  by (simp_all add: ctx_emit_def error_def ctx_readEof_def)

lemma ctx_skip_simps [simp]:
  "result (ctx_skip ctx n) = result ctx"
  "remaining (readCtx (ctx_skip ctx n)) = drop n (remaining (readCtx ctx))"
  "read (ctx_skip ctx n) = read ctx"
  "readEof (ctx_skip ctx n) = readEof ctx"
  "writeCtx (ctx_skip ctx n) = writeCtx ctx"
  "write' (ctx_skip ctx n) = write' ctx"
  "compress (ctx_skip ctx n) = compress ctx"
  "decompress (ctx_skip ctx n) = decompress ctx"
  "mode (ctx_skip ctx n) = mode ctx"
  "error (ctx_skip ctx n) = error ctx"
  by (simp_all add: ctx_skip_def error_def)

lemma ctx_skip_skip [simp]: "ctx_skip (ctx_skip ctx a) b = ctx_skip ctx (a + b)"
  by (simp add: ctx_skip_def take_add add.commute)

lemma ctx_skip_emit [simp]: "ctx_skip (ctx_emit ctx out) n = ctx_emit (ctx_skip ctx n) out"
  by (simp add: ctx_skip_def ctx_emit_def)

lemma mem_io_emit [simp]: "mem_io (ctx_emit ctx out) = mem_io ctx"
  by (simp add: mem_io_def)

lemma mem_io_skip [simp]: "mem_io (ctx_skip ctx n) = mem_io ctx"
  by (simp add: mem_io_def)

lemma mem_io_result [simp]: "mem_io (ctx\<lparr>result := r\<rparr>) = mem_io ctx"
  by (simp add: mem_io_def)

lemma ctx_read_mem:
  "read ctx = mem_read \<Longrightarrow>
   ctx_read ctx n = (take (nat n) (remaining (readCtx ctx)), ctx_skip ctx (nat n))"
  by (simp add: ctx_read_def mem_read_def ctx_skip_def)

lemma ctx_readEof_mem:
  "readEof ctx = mem_readEof \<Longrightarrow> ctx_readEof ctx \<longleftrightarrow> remaining (readCtx ctx) = []"
  by (simp add: ctx_readEof_def mem_readEof_def)

lemma ctx_write_mem:
  "write' ctx = mem_write \<Longrightarrow>
   ctx_write ctx p n = (int (length (take (nat n) p)), ctx_emit ctx (take (nat n) p))"
  by (simp add: ctx_write_def mem_write_def ctx_emit_def)

lemma readU32_mem:
  assumes "read ctx = mem_read" "\<not> error ctx" "remaining (readCtx ctx) = storeU32 v @ rest"
  shows "readU32 ctx = (v, ctx_skip ctx 4)"
  using assms by (simp add: readU32_def ctx_read_mem length_storeU32 loadU32_storeU32[of v "[]", simplified])

lemma readU32_mem_short:
  assumes "read ctx = mem_read" "\<not> error ctx" "length (remaining (readCtx ctx)) < 4"
  shows "readU32 ctx = (0, (ctx_skip ctx 4)\<lparr>result := LZ4MT_RESULT_ERROR\<rparr>)"
  using assms by (simp add: readU32_def ctx_read_mem)

lemma writeU32_mem:
  assumes "write' ctx = mem_write" "\<not> error ctx"
  shows "writeU32 ctx v = (True, ctx_emit ctx (storeU32 v))"
  using assms by (simp add: writeU32_def ctx_write_mem length_storeU32)

lemma writeBin_mem:
  assumes "write' ctx = mem_write" "\<not> error ctx" "0 \<le> n" "nat n \<le> length p"
  shows "writeBin ctx p n = (True, ctx_emit ctx (take (nat n) p))"
  using assms by (simp add: writeBin_def ctx_write_mem)

lemma word_of_int_flag:
  "(word_of_int (n OR cIncompressible) :: u32) = word_of_int n OR incompMask"
proof -
  have "incompMask = word_of_int cIncompressible"
    by (simp add: cIncompressible_def incompMask_def nBlockSize_def)
  moreover have "(word_of_int n :: u32) OR word_of_int cIncompressible
      = word_of_int (n OR cIncompressible)"
    by (rule word_wi_log_defs)
  ultimately show ?thesis by simp
qed

lemma compress_f_mem:
  assumes "write' ctx = mem_write" "\<not> error ctx" "compress_contract (compress ctx) src"
  shows "lz4mtCompress_f c ctx src = ctx_emit ctx (compressed_record (compress ctx) c src)"
proof -
  obtain cmpSize dst where cd: "compress ctx src (int (length src)) = (cmpSize, dst)" by force
  from assms(3) cd have len: "length dst = length src" and le: "cmpSize \<le> int (length src)"
    by (simp_all add: compress_contract_def)
  show ?thesis
  proof (cases "cmpSize \<le> 0")
    case True
    then show ?thesis
      using assms(1,2) cd
      by (simp add: lz4mtCompress_f_def compressed_record_def compressed_block_def
          block_record_def Let_def writeU32_mem writeBin_mem word_of_int_flag)
  next
    case False
    then have "nat cmpSize \<le> length dst" "length (take (nat cmpSize) dst) = nat cmpSize"
      using len le by simp_all
    with False show ?thesis
      using assms(1,2) cd
      by (simp add: lz4mtCompress_f_def compressed_record_def compressed_block_def
          block_record_def Let_def writeU32_mem writeBin_mem)
  qed
qed

lemma blocks_of_Nil [simp]: "blocks_of n [] = []"
  by simp

lemma blocks_of_step: "0 < n \<Longrightarrow> xs \<noteq> [] \<Longrightarrow> blocks_of n xs = take n xs # blocks_of n (drop n xs)"
  by simp

declare blocks_of.simps [simp del]

lemma concat_blocks_of: "0 < n \<Longrightarrow> concat (blocks_of n xs) = xs"
proof (induction "length xs" arbitrary: xs rule: less_induct)
  case less
  show ?case
  proof (cases "xs = []")
    case True then show ?thesis by simp
  next
    case False
    with less show ?thesis by (simp add: blocks_of_step)
  qed
qed

lemma blocks_of_length_le: "b \<in> set (blocks_of n xs) \<Longrightarrow> length b \<le> n \<and> b \<noteq> []"
proof (induction "length xs" arbitrary: xs rule: less_induct)
  case less
  show ?case
  proof (cases "n = 0 \<or> xs = []")
    case True with less(2) show ?thesis by (auto simp: blocks_of.simps[of n xs])
  next
    case False
    then have s: "blocks_of n xs = take n xs # blocks_of n (drop n xs)" by (simp add: blocks_of_step)
    from less(2) s consider "b = take n xs" | "b \<in> set (blocks_of n (drop n xs))" by auto
    then show ?thesis
    proof cases
      case 1 with False show ?thesis by auto
    next
      case 2
      have "length (drop n xs) < length xs" using False by simp
      from less(1)[OF this 2] show ?thesis .
    qed
  qed
qed

lemma take_min_length: "take (min (length xs) n) xs = take n xs"
  by (cases "length xs \<le> n") (simp_all add: min_def)

lemma Xxh32_update_all: "Xxh32_update xxh src (int (length src)) = xxh\<lparr>xxh_input := xxh_input xxh @ src\<rparr>"
  by (simp add: Xxh32_update_def)

lemma ctx_skip_all:
  "length (remaining (readCtx ctx)) \<le> n \<Longrightarrow>
   ctx_skip ctx n = ctx_skip ctx (length (remaining (readCtx ctx)))"
  by (simp add: ctx_skip_def)

lemma compress_loop_mem:
  assumes "mem_io ctx" "\<not> error ctx" "0 < B"
    and "\<forall>src \<in> set (blocks_of (nat B) (remaining (readCtx ctx))). compress_contract (compress ctx) src"
  shows "lz4mtCompress_loop B c s ctx xxh =
     Some (ctx_emit (ctx_skip ctx (length (remaining (readCtx ctx))))
             (concat (map (compressed_record (compress ctx) c)
                (blocks_of (nat B) (remaining (readCtx ctx))))),
           if s then xxh\<lparr>xxh_input := xxh_input xxh @ remaining (readCtx ctx)\<rparr> else xxh)"
  using assms
proof (induction "length (remaining (readCtx ctx))" arbitrary: ctx xxh rule: less_induct)
  case less
  let ?S = "remaining (readCtx ctx)"
  from less(2) have rd: "read ctx = mem_read" and eof: "readEof ctx = mem_readEof"
    and wr: "write' ctx = mem_write" by (simp_all add: mem_io_def)
  show ?case
  proof (cases "?S = []")
    case True
    then have "ctx_skip ctx 0 = ctx" by (simp add: ctx_skip_def)
    with True show ?thesis
      by (subst lz4mtCompress_loop.simps) (simp add: ctx_readEof_mem[OF eof])
  next
    case False
    let ?src = "take (nat B) ?S"
    let ?ctx1 = "ctx_skip ctx (nat B)"
    let ?ctx2 = "ctx_emit ?ctx1 (compressed_record (compress ctx) c ?src)"
    have bs: "blocks_of (nat B) ?S = ?src # blocks_of (nat B) (drop (nat B) ?S)"
      using False less(4) by (simp add: blocks_of_step)
    have cc: "compress_contract (compress ctx) ?src" using less(5) bs by simp
    have f: "lz4mtCompress_f c ?ctx1 ?src = ?ctx2"
      using compress_f_mem[of ?ctx1 ?src c] wr less(3) cc by simp
    have lt: "length (remaining (readCtx ?ctx2)) < length ?S" using False less(4) by simp
    have IH: "lz4mtCompress_loop B c s ?ctx2 (if s then xxh\<lparr>xxh_input := xxh_input xxh @ ?src\<rparr> else xxh) =
       Some (ctx_emit (ctx_skip ?ctx2 (length (remaining (readCtx ?ctx2))))
             (concat (map (compressed_record (compress ?ctx2) c)
                (blocks_of (nat B) (remaining (readCtx ?ctx2))))),
           if s then (if s then xxh\<lparr>xxh_input := xxh_input xxh @ ?src\<rparr> else xxh)
                \<lparr>xxh_input := xxh_input (if s then xxh\<lparr>xxh_input := xxh_input xxh @ ?src\<rparr> else xxh)
                   @ remaining (readCtx ?ctx2)\<rparr>
           else (if s then xxh\<lparr>xxh_input := xxh_input xxh @ ?src\<rparr> else xxh))"
      by (rule less(1)[OF lt]) (use less(2,3,4,5) bs in simp_all)
    have sk: "ctx_skip ctx (nat B + (length ?S - nat B)) = ctx_skip ctx (length ?S)"
      by (cases "nat B \<le> length ?S") (simp_all add: ctx_skip_all[of ctx "nat B"])
    have step: "lz4mtCompress_loop B c s ctx xxh =
        lz4mtCompress_loop B c s ?ctx2 (if s then xxh\<lparr>xxh_input := xxh_input xxh @ ?src\<rparr> else xxh)"
      by (subst lz4mtCompress_loop.simps)
        (simp add: ctx_readEof_mem[OF eof] False ctx_read_mem[OF rd] f Xxh32_update_def Let_def
            take_min_length)
    have app: "?src @ drop (nat B) ?S = ?S" by simp
    show ?thesis
      unfolding step IH by (simp add: bs sk app del: append_take_drop_id)
  qed
qed

lemma validate_OK_fields:
  assumes "validateStreamDescriptor sd = LZ4MT_RESULT_OK"
  shows "versionNumber (flg sd) = 1" "presetDictionary (flg sd) = 0" "reserved1 (flg sd) = 0"
    "blockIndependance (flg sd) \<noteq> 0" "4 \<le> blockMaximumSize (bd sd)"
    "blockMaximumSize (bd sd) \<le> 7" "reserved3 (bd sd) = 0" "reserved2 (bd sd) = 0"
  using assms by (auto simp: validateStreamDescriptor_def split: if_splits)

lemma getBlocksize_eq: "getBlocksize b = 2 ^ nat (8 + 2 * b)"
  by (simp add: getBlocksize_def push_bit_eq_mult)

lemma getBlocksize_range:
  assumes "4 \<le> b" "b \<le> 7"
  shows "0 < getBlocksize b" "getBlocksize b \<le> 2 ^ 22"
proof -
  show "0 < getBlocksize b" by (simp add: getBlocksize_eq)
  have "nat (8 + 2 * b) \<le> 22" using assms by simp
  then have "(2::int) ^ nat (8 + 2 * b) \<le> 2 ^ 22" by (rule power_increasing) simp
  then show "getBlocksize b \<le> 2 ^ 22" by (simp add: getBlocksize_eq)
qed

lemma lz4mtCompress_mem:
  assumes io: "mem_io ctx" and ok: "\<not> error ctx"
    and valid: "validateStreamDescriptor sd = LZ4MT_RESULT_OK"
    and asrt: "streamSize (flg sd) = 0 \<or> streamSizeValue sd \<noteq> 0"
    and cc: "\<forall>src \<in> set (blocks_of (nat (getBlocksize (blockMaximumSize (bd sd))))
                (remaining (readCtx ctx))). compress_contract (compress ctx) src"
  shows "lz4mtCompress ctx sd =
     Some (LZ4MT_RESULT_OK,
           ctx_emit (ctx_skip ctx (length (remaining (readCtx ctx))))
             (frame_bytes (compress ctx) sd (remaining (readCtx ctx))))"
proof -
  let ?S = "remaining (readCtx ctx)"
  let ?B = "getBlocksize (blockMaximumSize (bd sd))"
  let ?c = "if blockChecksum (flg sd) \<noteq> 0 then 4 else 0 :: int"
  let ?s = "0 \<noteq> streamChecksum (flg sd)"
  let ?d = "lz4mtCompress_header sd"
  let ?ctx1 = "ctx_emit ctx ?d"
  from io have wr: "write' ctx = mem_write" by (simp add: mem_io_def)
  have B: "0 < ?B" using getBlocksize_range(1) validate_OK_fields(5,6)[OF valid] by simp
  have hw: "ctx_write ctx ?d (int (length ?d)) = (int (length ?d), ?ctx1)"
    by (simp add: ctx_write_mem[OF wr])
  have loop: "lz4mtCompress_loop ?B ?c ?s ?ctx1 (Xxh32_init LZ4S_CHECKSUM_SEED) =
     Some (ctx_emit (ctx_skip ?ctx1 (length (remaining (readCtx ?ctx1))))
             (concat (map (compressed_record (compress ?ctx1) ?c)
                (blocks_of (nat ?B) (remaining (readCtx ?ctx1))))),
           if ?s then (Xxh32_init LZ4S_CHECKSUM_SEED)
              \<lparr>xxh_input := xxh_input (Xxh32_init LZ4S_CHECKSUM_SEED) @ remaining (readCtx ?ctx1)\<rparr>
           else Xxh32_init LZ4S_CHECKSUM_SEED)"
    by (rule compress_loop_mem) (use io ok B cc in simp_all)
  have wr2: "\<And>out. write' (ctx_emit (ctx_skip ctx (length ?S)) out) = mem_write"
    using wr by simp
  have ok2: "\<And>out. \<not> error (ctx_emit (ctx_skip ctx (length ?S)) out)"
    using ok by simp
  have xi: "xxh_input (Xxh32_init LZ4S_CHECKSUM_SEED) = []" by (simp add: Xxh32_init_def)
  have dg: "Xxh32_digest ((Xxh32_init LZ4S_CHECKSUM_SEED)\<lparr>xxh_input := ?S\<rparr>)
      = XXH32 ?S LZ4S_CHECKSUM_SEED"
    by (simp add: Xxh32_digest_def Xxh32_init_def)
  have "lz4mtCompress ctx sd =
     Option.bind (lz4mtCompress_loop ?B ?c ?s ?ctx1 (Xxh32_init LZ4S_CHECKSUM_SEED))
       (\<lambda>(ctx2, xxhStream).
           let (ok, ctx3) = writeU32 ctx2 LZ4S_EOS
           in if \<not> ok then Some (LZ4MT_RESULT_CANNOT_WRITE_EOS, ctx3)
              else if ?s
              then (let (ok', ctx4) = writeU32 ctx3 (Xxh32_digest xxhStream)
                    in if \<not> ok'
                       then Some (LZ4MT_RESULT_CANNOT_WRITE_STREAM_CHECKSUM, ctx4)
                       else Some (LZ4MT_RESULT_OK, ctx4))
              else Some (LZ4MT_RESULT_OK, ctx3))"
  proof -
    have na: "\<not> (streamSize (flg sd) \<noteq> 0 \<and> streamSizeValue sd = 0)" using asrt by auto
    show ?thesis
      unfolding lz4mtCompress_def using valid
      by (simp add: Let_def hw na split del: if_split cong: if_cong)
  qed
  also have "\<dots> = Some (LZ4MT_RESULT_OK,
           ctx_emit (ctx_skip ctx (length ?S)) (frame_bytes (compress ctx) sd ?S))"
    unfolding loop
    by (cases ?s) (simp_all add: writeU32_mem[OF wr2 ok2] frame_bytes_def dg xi)
  finally show ?thesis .
qed

lemma sizeword_decode:
  fixes inc :: bool and p :: "byte list"
  assumes "length p < 2 ^ 31"
    and w: "w = (word_of_int (int (length p)) :: u32) OR (if inc then incompMask else 0)"
  shows "sint (w AND NOT incompMask) = int (length p)"
    and "(0 \<noteq> (w AND incompMask)) = inc"
    and "bit w 31 = inc"
    and "w = 0 \<longleftrightarrow> \<not> inc \<and> p = []"
proof -
  have n: "0 \<le> int (length p)" "int (length p) < 2 ^ 31" using assms(1) by simp_all
  have sb: "sint (w AND NOT incompMask) = int (length p) \<and> bit w 31 = inc"
  proof (cases inc)
    case True
    then have "w = word_of_int (int (length p) OR cIncompressible)"
      unfolding w by (simp only: word_of_int_flag if_True)
    with sizeword_flag[OF n] True show ?thesis by simp
  next
    case False
    then have "w = word_of_int (int (length p))"
      unfolding w by (simp only: if_False or.right_neutral)
    with sizeword_plain[OF n] False show ?thesis by simp
  qed
  then have s: "sint (w AND NOT incompMask) = int (length p)" and b: "bit w 31 = inc"
    by simp_all
  show "sint (w AND NOT incompMask) = int (length p)" by (rule s)
  show "bit w 31 = inc" by (rule b)
  show "(0 \<noteq> (w AND incompMask)) = inc" using and_incompMask[of w] b by auto
  show "w = 0 \<longleftrightarrow> \<not> inc \<and> p = []"
  proof
    assume "w = 0"
    with s b show "\<not> inc \<and> p = []" by auto
  next
    assume "\<not> inc \<and> p = []"
    then show "w = 0" by (simp add: w)
  qed
qed

text \<open>
  One turn of the block loop on a record on the wire: a size word \<open>w\<close> that is not
  the EOS word, \<open>w & 0x7FFFFFFF\<close> bytes of payload and, with block checksums on, a
  checksum word.
\<close>

lemma decompress_blocks_read:
  assumes io: "mem_io ctx" and ok: "\<not> error ctx"
    and rem: "remaining (readCtx ctx) = storeU32 w @ p @ tr @ rest"
    and wz: "w \<noteq> LZ4S_EOS" and sz: "int (length p) = uint (w AND 0x7FFFFFFF)"
    and tr: "tr = (if c \<noteq> 0 then storeU32 ck else [])"
  shows "lz4mtDecompress_blocks tk B c s single (ctx, False, xxh, futures) =
     (if single
      then (let (r, ctx4, quit4, xxh4) =
                  lz4mtDecompress_f B c s (ctx_skip ctx (4 + length p + length tr)) False xxh p
                    (bit w 31) (if c \<noteq> 0 then ck else 0)
            in lz4mtDecompress_blocks tk B c s single (ctx4, quit4, xxh4, futures))
      else tk B c s (ctx_skip ctx (4 + length p + length tr), False, xxh, futures) p
             (bit w 31) (if c \<noteq> 0 then ck else 0))"
proof -
  from io have rd: "read ctx = mem_read" and eof: "readEof ctx = mem_readEof"
    by (simp_all add: mem_io_def)
  have rem': "remaining (readCtx ctx) = storeU32 w @ (p @ tr @ rest)"
    using rem by simp
  have ne: "\<not> ctx_readEof ctx"
    using rem' length_storeU32[of w] by (auto simp: ctx_readEof_mem[OF eof])
  have r1: "readU32 ctx = (w, ctx_skip ctx 4)"
    by (rule readU32_mem[OF rd ok rem'])
  have wz': "LZ4S_EOS \<noteq> w" using wz by auto
  have m: "(0x7FFFFFFF :: u32) = NOT incompMask" by (simp add: incompMask_def)
  have sz': "sint (w AND NOT incompMask) = int (length p)"
    using sz unfolding m by (simp add: sint_low uint_low)
  have fl: "(w AND incompMask \<noteq> 0) = bit w 31" by (rule and_incompMask)
  have rem4: "remaining (readCtx (ctx_skip ctx 4)) = p @ tr @ rest"
    using rem' by (simp add: length_storeU32)
  have r2: "ctx_read (ctx_skip ctx 4) (int (length p)) = (p, ctx_skip ctx (4 + length p))"
    using rd rem4 by (simp add: ctx_read_mem)
  have r3: "(if c \<noteq> 0 then readU32 (ctx_skip ctx (4 + length p))
             else (0, ctx_skip ctx (4 + length p)))
      = (if c \<noteq> 0 then ck else 0, ctx_skip ctx (4 + length p + length tr))"
  proof (cases "c = 0")
    case True
    then show ?thesis by (simp add: tr)
  next
    case False
    then show ?thesis
      using readU32_mem[of "ctx_skip ctx (4 + length p)" ck rest]
        rd ok rem' by (simp add: length_storeU32 tr)
  qed
  show ?thesis
    by (subst lz4mtDecompress_blocks.simps)
      (simp add: ne r1 ok wz' sz' fl r2 r3 Let_def del: One_nat_def split del: if_split cong: if_cong)
qed

lemma decompress_blocks_step:
  assumes io: "mem_io ctx" and ok: "\<not> error ctx"
    and rem: "remaining (readCtx ctx) = block_record c inc p @ rest"
    and len: "length p < 2 ^ 31" and nz: "inc \<or> p \<noteq> []"
  shows "lz4mtDecompress_blocks tk B c s True (ctx, False, xxh, futures) =
     (let (r, ctx4, quit4, xxh4) =
            lz4mtDecompress_f B c s (ctx_skip ctx (length (block_record c inc p))) False xxh p inc
              (if c \<noteq> 0 then XXH32 p LZ4S_CHECKSUM_SEED else 0)
      in lz4mtDecompress_blocks tk B c s True (ctx4, quit4, xxh4, futures))"
proof -
  define w where "w = (word_of_int (int (length p)) :: u32) OR (if inc then incompMask else 0)"
  define tr where "tr = (if c \<noteq> 0 then storeU32 (XXH32 p LZ4S_CHECKSUM_SEED) else [])"
  have br: "block_record c inc p = storeU32 w @ p @ tr"
    by (simp only: block_record_def w_def tr_def)
  have rem': "remaining (readCtx ctx) = storeU32 w @ p @ tr @ rest"
    using rem by (simp add: br)
  have wz: "w \<noteq> LZ4S_EOS"
    using sizeword_decode(4)[OF len w_def] nz by (auto simp: LZ4S_EOS_def)
  have m: "(0x7FFFFFFF :: u32) = NOT incompMask" by (simp add: incompMask_def)
  have sz: "int (length p) = uint (w AND 0x7FFFFFFF)"
    unfolding m using sizeword_decode(1)[OF len w_def] by (simp add: sint_low uint_low)
  have fl: "bit w 31 = inc" using sizeword_decode(3)[OF len w_def] by simp
  have lr: "length (block_record c inc p) = 4 + length p + length tr"
    by (simp add: br length_storeU32)
  show ?thesis
    using decompress_blocks_read[OF io ok rem' wz sz tr_def, of tk B s True xxh futures]
    by (simp only: lr fl if_True)
qed

lemma decompress_f_mem:
  assumes wr: "write' ctx = mem_write" and ok: "\<not> error ctx"
    and bo: "block_ok (decompress ctx) B (inc, p)"
  shows "lz4mtDecompress_f B c s ctx False xxh p inc (if c \<noteq> 0 then XXH32 p LZ4S_CHECKSUM_SEED else 0) =
     (LZ4MT_RESULT_OK, ctx_emit ctx (block_content (decompress ctx) B (inc, p)), False,
      if s then xxh\<lparr>xxh_input := xxh_input xxh @ block_content (decompress ctx) B (inc, p)\<rparr>
      else xxh)"
proof (cases inc)
  case True
  then show ?thesis
    using ok by (simp add: lz4mtDecompress_f_def block_content_def writeBin_mem[OF wr ok]
        Xxh32_update_def Let_def)
next
  case False
  obtain decSize dst where d: "decompress ctx p B = (decSize, dst)" by force
  from bo False d have r: "0 \<le> decSize" "nat decSize \<le> length dst"
    by (simp_all add: block_ok_def)
  show ?thesis
    using ok False d by (simp add: lz4mtDecompress_f_def block_content_def
        writeBin_mem[OF wr ok r] Xxh32_update_def Let_def)
qed

lemma decompress_blocks_mem:
  assumes "mem_io ctx" "\<not> error ctx"
    and "remaining (readCtx ctx) = concat (map (\<lambda>b. block_record c (fst b) (snd b)) bs) @ rest"
    and "\<forall>b \<in> set bs. block_ok (decompress ctx) B b"
  shows "lz4mtDecompress_blocks tk B c s True (ctx, False, xxh, futures) =
     lz4mtDecompress_blocks tk B c s True
       (ctx_emit (ctx_skip ctx (length (concat (map (\<lambda>b. block_record c (fst b) (snd b)) bs))))
          (concat (map (block_content (decompress ctx) B) bs)),
        False,
        if s then xxh\<lparr>xxh_input := xxh_input xxh @ concat (map (block_content (decompress ctx) B) bs)\<rparr>
        else xxh,
        futures)"
  using assms
proof (induction bs arbitrary: ctx xxh futures)
  case Nil
  have "ctx_skip ctx 0 = ctx" by (simp add: ctx_skip_def)
  then show ?case by (cases s) simp_all
next
  case (Cons b bs)
  obtain inc p where b: "b = (inc, p)" by force
  let ?rec = "block_record c inc p"
  let ?ctx1 = "ctx_emit (ctx_skip ctx (length ?rec)) (block_content (decompress ctx) B (inc, p))"
  let ?xxh1 = "if s then xxh\<lparr>xxh_input := xxh_input xxh @ block_content (decompress ctx) B (inc, p)\<rparr> else xxh"
  from Cons.prems(4) b have bo: "block_ok (decompress ctx) B (inc, p)" by simp
  then have len: "length p < 2 ^ 31" and nz: "inc \<or> p \<noteq> []" by (simp_all add: block_ok_def)
  have rem: "remaining (readCtx ctx) = ?rec @ (concat (map (\<lambda>b. block_record c (fst b) (snd b)) bs) @ rest)"
    using Cons.prems(3) b by simp
  from Cons.prems(1) have wr: "write' (ctx_skip ctx (length ?rec)) = mem_write"
    by (simp add: mem_io_def)
  have f: "lz4mtDecompress_f B c s (ctx_skip ctx (length ?rec)) False xxh p inc
        (if c \<noteq> 0 then XXH32 p LZ4S_CHECKSUM_SEED else 0) = (LZ4MT_RESULT_OK, ?ctx1, False, ?xxh1)"
    using decompress_f_mem[OF wr, of B inc p c s xxh] Cons.prems(2) bo by simp
  have step: "lz4mtDecompress_blocks tk B c s True (ctx, False, xxh, futures) =
      lz4mtDecompress_blocks tk B c s True (?ctx1, False, ?xxh1, futures)"
    unfolding decompress_blocks_step[OF Cons.prems(1,2) rem len nz] f by simp
  have IH: "lz4mtDecompress_blocks tk B c s True (?ctx1, False, ?xxh1, futures) =
     lz4mtDecompress_blocks tk B c s True
       (ctx_emit (ctx_skip ?ctx1 (length (concat (map (\<lambda>b. block_record c (fst b) (snd b)) bs))))
          (concat (map (block_content (decompress ?ctx1) B) bs)),
        False,
        if s then ?xxh1\<lparr>xxh_input := xxh_input ?xxh1 @ concat (map (block_content (decompress ?ctx1) B) bs)\<rparr>
        else ?xxh1,
        futures)"
    by (rule Cons.IH) (use Cons.prems rem in simp_all)
  show ?case
    unfolding step IH using b by simp
qed

lemma decompress_blocks_eof:
  assumes "mem_io ctx" "remaining (readCtx ctx) = []"
  shows "lz4mtDecompress_blocks tk B c s single (ctx, quit, xxh, futures) = Some (ctx, quit, xxh, futures)"
  using assms
  by (subst lz4mtDecompress_blocks.simps) (simp add: mem_io_def ctx_readEof_mem)

lemma decompress_blocks_eos:
  assumes "mem_io ctx" "\<not> error ctx" "remaining (readCtx ctx) = storeU32 LZ4S_EOS @ rest"
  shows "lz4mtDecompress_blocks tk B c s single (ctx, False, xxh, futures)
     = Some (ctx_skip ctx 4, False, xxh, futures)"
proof -
  from assms(1) have rd: "read ctx = mem_read" and eof: "readEof ctx = mem_readEof"
    by (simp_all add: mem_io_def)
  have ne: "\<not> ctx_readEof ctx"
    using assms(3) length_storeU32[of LZ4S_EOS] by (auto simp: ctx_readEof_mem[OF eof])
  show ?thesis
    by (subst lz4mtDecompress_blocks.simps)
      (simp add: ne readU32_mem[OF rd assms(2,3)] assms(2))
qed

lemma setResult_ERROR: "setResult (ctx\<lparr>result := LZ4MT_RESULT_ERROR\<rparr>) r = ctx\<lparr>result := r\<rparr>"
  by (simp add: setResult_def)

lemma setResult_OK: "\<not> error ctx \<Longrightarrow> setResult ctx r = ctx\<lparr>result := r\<rparr>"
  by (simp add: setResult_def error_def)

lemma error_result_update [simp]: "error (ctx\<lparr>result := r\<rparr>) \<longleftrightarrow> r \<noteq> LZ4MT_RESULT_OK"
  by (auto simp add: error_def)

lemma decompress_blocks_short:
  assumes "mem_io ctx" "\<not> error ctx" "remaining (readCtx ctx) \<noteq> []"
    "length (remaining (readCtx ctx)) < 4"
  shows "lz4mtDecompress_blocks tk B c s single (ctx, False, xxh, futures)
     = Some ((ctx_skip ctx 4)\<lparr>result := LZ4MT_RESULT_CANNOT_READ_BLOCK_SIZE\<rparr>, True, xxh, futures)"
proof -
  from assms(1) have rd: "read ctx = mem_read" and eof: "readEof ctx = mem_readEof"
    by (simp_all add: mem_io_def)
  show ?thesis
    by (subst lz4mtDecompress_blocks.simps)
      (simp add: ctx_readEof_mem[OF eof] assms(3) readU32_mem_short[OF rd assms(2,4)]
         setResult_ERROR)
qed

lemma decompress_blocks_short_data:
  assumes io: "mem_io ctx" and ok: "\<not> error ctx"
    and rem: "remaining (readCtx ctx) = storeU32 w @ q"
    and wz: "w \<noteq> LZ4S_EOS" and short: "int (length q) < sint (w AND NOT incompMask)"
  shows "lz4mtDecompress_blocks tk B c s single (ctx, False, xxh, futures)
     = Some ((ctx_skip ctx (4 + nat (sint (w AND NOT incompMask))))
               \<lparr>result := LZ4MT_RESULT_CANNOT_READ_BLOCK_DATA\<rparr>, True, xxh, futures)"
proof -
  from io have rd: "read ctx = mem_read" and eof: "readEof ctx = mem_readEof"
    by (simp_all add: mem_io_def)
  have ne: "\<not> ctx_readEof ctx"
    using rem length_storeU32[of w] by (auto simp: ctx_readEof_mem[OF eof])
  have r1: "readU32 ctx = (w, ctx_skip ctx 4)"
    by (rule readU32_mem[OF rd ok rem])
  have rem4: "remaining (readCtx (ctx_skip ctx 4)) = q"
    using rem by (simp add: length_storeU32)
  have r2: "ctx_read (ctx_skip ctx 4) (sint (w AND NOT incompMask))
      = (q, ctx_skip ctx (4 + nat (sint (w AND NOT incompMask))))"
    using rd rem4 short by (simp add: ctx_read_mem)
  have wz': "LZ4S_EOS \<noteq> w" using wz by auto
  have ne2: "sint (w AND NOT incompMask) \<noteq> int (length q)" using short by simp
  show ?thesis
    by (subst lz4mtDecompress_blocks.simps)
      (simp add: ne r1 ok wz' r2 ne2 Let_def setResult_OK)
qed

lemma charToFlg_flgToChar:
  assumes "versionNumber f = 1" "presetDictionary f = 0" "reserved1 f = 0"
    "blockIndependance f = 1"
    "streamChecksum f = 0 \<or> streamChecksum f = 1"
    "streamSize f = 0 \<or> streamSize f = 1"
    "blockChecksum f = 0 \<or> blockChecksum f = 1"
  shows "charToFlg (flgToChar f) = f"
proof -
  obtain a b c where f: "f = \<lparr>presetDictionary = 0, reserved1 = 0, streamChecksum = a, streamSize = b,
             blockChecksum = c, blockIndependance = 1, versionNumber = 1\<rparr>"
    and abc: "a = 0 \<or> a = 1" "b = 0 \<or> b = 1" "c = 0 \<or> c = 1"
    using assms by (cases f) auto
  from abc show ?thesis
    unfolding f by (elim disjE) (simp_all add: charToFlg_def flgToChar_def)
qed

lemma charToBc_bdToChar:
  assumes "4 \<le> blockMaximumSize b" "blockMaximumSize b \<le> 7" "reserved3 b = 0" "reserved2 b = 0"
  shows "charToBc (bdToChar b) = b"
proof -
  have m: "blockMaximumSize b = 4 \<or> blockMaximumSize b = 5 \<or> blockMaximumSize b = 6
      \<or> blockMaximumSize b = 7"
    using assms(1,2) by arith
  have b: "b = \<lparr>reserved3 = 0, blockMaximumSize = blockMaximumSize b, reserved2 = 0\<rparr>"
    using assms(3,4) by (cases b) simp
  from m show ?thesis
    by (elim disjE; subst b; subst (2) b; simp add: charToBc_def bdToChar_def)
qed

lemma ctx_read_result': "ctx_read ctx n = (d, ctx1) \<Longrightarrow> result ctx1 = result ctx"
  using ctx_read_result[of ctx n] by simp

lemma decompress_header_checksum:
  assumes ok: "\<not> error ctx"
    and r1: "ctx_read ctx 2 = ([fb, bb], ctx1)"
    and v: "validateStreamDescriptor (sd0\<lparr>flg := charToFlg fb, bd := charToBc bb\<rparr>) = LZ4MT_RESULT_OK"
    and r2: "ctx_read ctx1 (int (length ext) + 1) = (ext @ [hc], ctx2)"
    and le: "length ext = (if streamSize (charToFlg fb) \<noteq> 0 then 8 else 0)"
  shows "lz4mtDecompress_header ctx sd0 =
     (hc = ucast (getCheckBits_FromXXH (XXH32 ([fb, bb] @ ext) LZ4S_CHECKSUM_SEED)),
      (if hc = ucast (getCheckBits_FromXXH (XXH32 ([fb, bb] @ ext) LZ4S_CHECKSUM_SEED))
       then ctx2 else ctx2\<lparr>result := LZ4MT_RESULT_INVALID_HEADER_CHECKSUM\<rparr>),
      sd0\<lparr>flg := charToFlg fb, bd := charToBc bb,
          streamSizeValue := (if streamSize (charToFlg fb) \<noteq> 0 then loadU64 (ext @ [hc])
                              else streamSizeValue sd0)\<rparr>)"
proof -
  let ?sd1 = "sd0\<lparr>flg := charToFlg fb, bd := charToBc bb\<rparr>"
  have pd: "presetDictionary (charToFlg fb) = 0"
    using validate_OK_fields(2)[OF v] by simp
  have ok2: "\<not> error ctx2"
    using ok ctx_read_result'[OF r1] ctx_read_result'[OF r2] by (simp add: error_def)
  show ?thesis
  proof (cases "streamSize (charToFlg fb) = 0")
    case True
    with le have e: "ext = []" by simp
    show ?thesis
      using True v pd r2
      by (simp add: lz4mtDecompress_header_def r1 Let_def e setResult_OK[OF ok2])
  next
    case False
    with le have l8: "length ext = 8" by simp
    then have n: "(ext @ [hc]) ! 8 = hc" by (simp add: nth_append)
    show ?thesis
      using False v pd r2 l8
      by (simp add: lz4mtDecompress_header_def r1 Let_def n setResult_OK[OF ok2])
  qed
qed

lemma not_skippable_magic: "\<not> isSkippableMagicNumber LZ4S_MAGICNUMBER"
  by (simp add: isSkippableMagicNumber_def LZ4S_MAGICNUMBER_def
      LZ4S_MAGICNUMBER_SKIPPABLE_MIN_def LZ4S_MAGICNUMBER_SKIPPABLE_MAX_def)

lemma decompress_frames_done:
  "quit \<or> error ctx \<or> ctx_readEof ctx \<Longrightarrow> lz4mtDecompress_frames tk (ctx, sd, quit) = Some (ctx, sd)"
  by (subst lz4mtDecompress_frames.simps) auto

lemma decompress_header_mem:
  assumes io: "mem_io ctx" and ok: "\<not> error ctx"
    and rem: "remaining (readCtx ctx) = [fb, bb] @ ext @ [hc] @ rest"
    and v: "validateStreamDescriptor (sd0\<lparr>flg := charToFlg fb, bd := charToBc bb\<rparr>) = LZ4MT_RESULT_OK"
    and le: "length ext = (if streamSize (charToFlg fb) \<noteq> 0 then 8 else 0)"
  shows "lz4mtDecompress_header ctx sd0 =
     (hc = ucast (getCheckBits_FromXXH (XXH32 ([fb, bb] @ ext) LZ4S_CHECKSUM_SEED)),
      (if hc = ucast (getCheckBits_FromXXH (XXH32 ([fb, bb] @ ext) LZ4S_CHECKSUM_SEED))
       then ctx_skip ctx (3 + length ext)
       else (ctx_skip ctx (3 + length ext))\<lparr>result := LZ4MT_RESULT_INVALID_HEADER_CHECKSUM\<rparr>),
      sd0\<lparr>flg := charToFlg fb, bd := charToBc bb,
          streamSizeValue := (if streamSize (charToFlg fb) \<noteq> 0 then loadU64 (ext @ [hc])
                              else streamSizeValue sd0)\<rparr>)"
proof -
  from io have rd: "read ctx = mem_read" by (simp add: mem_io_def)
  have r1: "ctx_read ctx 2 = ([fb, bb], ctx_skip ctx 2)"
    using rem by (simp add: ctx_read_mem[OF rd])
  have r2: "ctx_read (ctx_skip ctx 2) (int (length ext) + 1) = (ext @ [hc], ctx_skip ctx (3 + length ext))"
  proof -
    have n: "nat (int (length ext) + 1) = length ext + 1" by simp
    have "ctx_skip (ctx_skip ctx 2) (length ext + 1) = ctx_skip ctx (3 + length ext)"
      by (simp only: ctx_skip_skip) (rule arg_cong[where f = "ctx_skip ctx"], simp)
    moreover have "read (ctx_skip ctx 2) = mem_read" using rd by simp
    moreover have "take (length ext + 1) (remaining (readCtx (ctx_skip ctx 2))) = ext @ [hc]"
      using rem by simp
    ultimately show ?thesis
      using ctx_read_mem[of "ctx_skip ctx 2" "int (length ext) + 1"] by (simp only: n)
  qed
  show ?thesis
    using decompress_header_checksum[OF ok r1 v r2 le] by simp
qed

lemma decompress_frames_header:
  assumes io: "mem_io ctx" and ok: "\<not> error ctx"
    and rem: "remaining (readCtx ctx) = storeU32 LZ4S_MAGICNUMBER @ [fb, bb] @ ext @ [hc] @ rest"
    and v: "validateStreamDescriptor (sd0\<lparr>flg := charToFlg fb, bd := charToBc bb\<rparr>) = LZ4MT_RESULT_OK"
    and le: "length ext = (if streamSize (charToFlg fb) \<noteq> 0 then 8 else 0)"
    and hc: "hc = ucast (getCheckBits_FromXXH (XXH32 ([fb, bb] @ ext) LZ4S_CHECKSUM_SEED))"
    and sd2: "sd2 = sd0\<lparr>flg := charToFlg fb, bd := charToBc bb,
          streamSizeValue := (if streamSize (charToFlg fb) \<noteq> 0 then loadU64 (ext @ [hc])
                              else streamSizeValue sd0)\<rparr>"
  shows "lz4mtDecompress_frames tk (ctx, sd0, False) =
     Option.bind
       (lz4mtDecompress_blocks tk (getBlocksize (blockMaximumSize (charToBc bb)))
          (if blockChecksum (charToFlg fb) \<noteq> 0 then 4 else 0)
          (0 \<noteq> streamChecksum (charToFlg fb))
          (0 \<noteq> (mode ctx AND LZ4MT_MODE_SEQUENTIAL))
          (ctx_skip ctx (7 + length ext), False, Xxh32_init LZ4S_CHECKSUM_SEED, []))
       (\<lambda>(ctx3, quit3, xxhStream, futures).
           let ctx4 = lz4mtDecompress_join ctx3 futures;
               (ok', ctx5) = lz4mtDecompress_trailer (0 \<noteq> streamChecksum (charToFlg fb)) ctx4 xxhStream
           in if \<not> ok' then Some (ctx5, sd2)
              else lz4mtDecompress_frames tk (ctx5, sd2, quit3))"
proof -
  from io have rd: "read ctx = mem_read" and eof: "readEof ctx = mem_readEof"
    by (simp_all add: mem_io_def)
  have ne: "\<not> ctx_readEof ctx"
    using rem length_storeU32[of LZ4S_MAGICNUMBER] by (auto simp: ctx_readEof_mem[OF eof])
  have r1: "readU32 ctx = (LZ4S_MAGICNUMBER, ctx_skip ctx 4)"
    using readU32_mem[OF rd ok] rem by simp
  have rem4: "remaining (readCtx (ctx_skip ctx 4)) = [fb, bb] @ ext @ [hc] @ rest"
    using rem by (simp add: length_storeU32)
  have h: "lz4mtDecompress_header (ctx_skip ctx 4) sd0 = (True, ctx_skip ctx (7 + length ext), sd2)"
    using decompress_header_mem[OF _ _ rem4 v le] io ok hc sd2 by simp
  show ?thesis
    by (subst lz4mtDecompress_frames.simps)
      (simp add: ne ok r1 not_skippable_magic h Let_def sd2
         split del: if_split cong: if_cong)
qed

lemma join_Nil: "lz4mtDecompress_join ctx [] = ctx"
  by (simp add: lz4mtDecompress_join_def)

lemma trailer_off: "lz4mtDecompress_trailer False ctx xxh = (True, ctx)"
  by (simp add: lz4mtDecompress_trailer_def)

lemma trailer_error: "error ctx \<Longrightarrow> lz4mtDecompress_trailer s ctx xxh = (True, ctx)"
  by (simp add: lz4mtDecompress_trailer_def)

lemma trailer_mem:
  assumes "mem_io ctx" "\<not> error ctx" "remaining (readCtx ctx) = storeU32 t @ rest"
  shows "lz4mtDecompress_trailer True ctx xxh =
     (Xxh32_digest xxh = t,
      if Xxh32_digest xxh = t then ctx_skip ctx 4
      else (ctx_skip ctx 4)\<lparr>result := LZ4MT_RESULT_STREAM_CHECKSUM_MISMATCH\<rparr>)"
proof -
  from assms(1) have rd: "read ctx = mem_read" by (simp add: mem_io_def)
  show ?thesis
    using assms(2)
    by (simp add: lz4mtDecompress_trailer_def readU32_mem[OF rd assms(2,3)] setResult_OK)
qed

lemma trailer_mem_short:
  assumes "mem_io ctx" "\<not> error ctx" "length (remaining (readCtx ctx)) < 4"
  shows "lz4mtDecompress_trailer True ctx xxh =
     (False, (ctx_skip ctx 4)\<lparr>result := LZ4MT_RESULT_CANNOT_READ_STREAM_CHECKSUM\<rparr>)"
proof -
  from assms(1) have rd: "read ctx = mem_read" by (simp add: mem_io_def)
  show ?thesis
    using assms(2)
    by (simp add: lz4mtDecompress_trailer_def readU32_mem_short[OF rd assms(2,3)] setResult_ERROR)
qed

lemma Xxh32_digest_init:
  "Xxh32_digest ((Xxh32_init seed)\<lparr>xxh_input := xxh_input (Xxh32_init seed) @ S\<rparr>) = XXH32 S seed"
  by (simp add: Xxh32_digest_def Xxh32_init_def)

lemma decompress_blocks_short_checksum:
  assumes io: "mem_io ctx" and ok: "\<not> error ctx"
    and rem: "remaining (readCtx ctx) = storeU32 w @ p @ q"
    and wz: "w \<noteq> LZ4S_EOS" and sz: "sint (w AND NOT incompMask) = int (length p)"
    and c: "c \<noteq> 0" and short: "length q < 4"
  shows "lz4mtDecompress_blocks tk B c s single (ctx, False, xxh, futures)
     = Some ((ctx_skip ctx (4 + length p + 4))
               \<lparr>result := LZ4MT_RESULT_CANNOT_READ_BLOCK_CHECKSUM\<rparr>, True, xxh, futures)"
proof -
  from io have rd: "read ctx = mem_read" and eof: "readEof ctx = mem_readEof"
    by (simp_all add: mem_io_def)
  have ne: "\<not> ctx_readEof ctx"
    using rem length_storeU32[of w] by (auto simp: ctx_readEof_mem[OF eof])
  have r1: "readU32 ctx = (w, ctx_skip ctx 4)"
    by (rule readU32_mem[OF rd ok rem])
  have rem4: "remaining (readCtx (ctx_skip ctx 4)) = p @ q"
    using rem by (simp add: length_storeU32)
  have r2: "ctx_read (ctx_skip ctx 4) (int (length p)) = (p, ctx_skip ctx (4 + length p))"
    using rd rem4 by (simp add: ctx_read_mem)
  have rem5: "length (remaining (readCtx (ctx_skip ctx (4 + length p)))) < 4"
    using rem short by (simp add: length_storeU32)
  have rd5: "read (ctx_skip ctx (4 + length p)) = mem_read"
    and ok5: "\<not> error (ctx_skip ctx (4 + length p))"
    using rd ok by simp_all
  have r3: "readU32 (ctx_skip ctx (4 + length p))
      = (0, (ctx_skip ctx (4 + length p + 4))\<lparr>result := LZ4MT_RESULT_ERROR\<rparr>)"
    using readU32_mem_short[OF rd5 ok5 rem5] by simp
  have wz': "LZ4S_EOS \<noteq> w" using wz by auto
  show ?thesis
    by (subst lz4mtDecompress_blocks.simps)
      (simp add: ne r1 ok wz' sz r2 c r3 Let_def setResult_ERROR del: One_nat_def)
qed

text \<open>
  The frame loop in sequential mode on a header and whole block records: what is left
  is the block loop on the rest of the input, the blocks decoded and written.
\<close>

lemma decompress_frame_blocks:
  assumes io: "mem_io ctx" and ok: "\<not> error ctx"
    and seq: "mode ctx AND LZ4MT_MODE_SEQUENTIAL \<noteq> 0"
    and rem: "remaining (readCtx ctx) = storeU32 LZ4S_MAGICNUMBER @ [fb, bb] @ ext @ [hc]
        @ concat (map (\<lambda>b. block_record c (fst b) (snd b)) bs) @ tail"
    and v: "validateStreamDescriptor (sd0\<lparr>flg := charToFlg fb, bd := charToBc bb\<rparr>) = LZ4MT_RESULT_OK"
    and le: "length ext = (if streamSize (charToFlg fb) \<noteq> 0 then 8 else 0)"
    and hc: "hc = ucast (getCheckBits_FromXXH (XXH32 ([fb, bb] @ ext) LZ4S_CHECKSUM_SEED))"
    and sd2: "sd2 = sd0\<lparr>flg := charToFlg fb, bd := charToBc bb,
          streamSizeValue := (if streamSize (charToFlg fb) \<noteq> 0 then loadU64 (ext @ [hc])
                              else streamSizeValue sd0)\<rparr>"
    and c: "c = (if blockChecksum (charToFlg fb) \<noteq> 0 then 4 else 0)"
    and bo: "\<forall>b \<in> set bs. block_ok (decompress ctx) (getBlocksize (blockMaximumSize (charToBc bb))) b"
    and out: "out = concat (map (block_content (decompress ctx)
                 (getBlocksize (blockMaximumSize (charToBc bb)))) bs)"
    and k: "k = 7 + length ext + length (concat (map (\<lambda>b. block_record c (fst b) (snd b)) bs))"
    and xxhB: "xxhB = (if 0 \<noteq> streamChecksum (charToFlg fb)
         then (Xxh32_init LZ4S_CHECKSUM_SEED)
                \<lparr>xxh_input := xxh_input (Xxh32_init LZ4S_CHECKSUM_SEED) @ out\<rparr>
         else Xxh32_init LZ4S_CHECKSUM_SEED)"
  shows "lz4mtDecompress_frames tk (ctx, sd0, False) =
     Option.bind
       (lz4mtDecompress_blocks tk (getBlocksize (blockMaximumSize (charToBc bb))) c
          (0 \<noteq> streamChecksum (charToFlg fb)) True
          (ctx_emit (ctx_skip ctx k) out, False, xxhB, []))
       (\<lambda>(ctx3, quit3, xxhStream, futures).
           let ctx4 = lz4mtDecompress_join ctx3 futures;
               (ok', ctx5) = lz4mtDecompress_trailer (0 \<noteq> streamChecksum (charToFlg fb)) ctx4 xxhStream
           in if \<not> ok' then Some (ctx5, sd2)
              else lz4mtDecompress_frames tk (ctx5, sd2, quit3))"
    and "remaining (readCtx (ctx_emit (ctx_skip ctx k) out)) = tail"
proof -
  let ?B = "getBlocksize (blockMaximumSize (charToBc bb))"
  let ?s = "0 \<noteq> streamChecksum (charToFlg fb)"
  define wire where "wire = concat (map (\<lambda>b. block_record c (fst b) (snd b)) bs)"
  define ctxH where "ctxH = ctx_skip ctx (7 + length ext)"
  have remH: "remaining (readCtx ctxH) = wire @ tail"
    using rem le by (simp add: ctxH_def wire_def length_storeU32)
  have ioH: "mem_io ctxH" "\<not> error ctxH" "decompress ctxH = decompress ctx"
    using io ok by (simp_all add: ctxH_def)
  have ctxB: "ctx_emit (ctx_skip ctxH (length wire)) out = ctx_emit (ctx_skip ctx k) out"
    by (simp add: ctxH_def k wire_def add.assoc)
  have "remaining (readCtx (ctx_emit (ctx_skip ctxH (length wire)) out)) = tail"
    using remH by simp
  then show "remaining (readCtx (ctx_emit (ctx_skip ctx k) out)) = tail"
    by (simp only: ctxB)
  have blocks1: "lz4mtDecompress_blocks tk ?B c ?s True (ctxH, False, Xxh32_init LZ4S_CHECKSUM_SEED, [])
     = lz4mtDecompress_blocks tk ?B c ?s True (ctx_emit (ctx_skip ctx k) out, False, xxhB, [])"
    using decompress_blocks_mem[OF ioH(1,2) remH[unfolded wire_def], of ?B tk ?s
        "Xxh32_init LZ4S_CHECKSUM_SEED" "[]"] bo
    by (simp only: ioH(3) xxhB wire_def[symmetric] out[symmetric] ctxB)
  have single: "(0 \<noteq> (mode ctx AND LZ4MT_MODE_SEQUENTIAL)) = True"
    using seq by auto
  show "lz4mtDecompress_frames tk (ctx, sd0, False) =
     Option.bind
       (lz4mtDecompress_blocks tk (getBlocksize (blockMaximumSize (charToBc bb))) c
          (0 \<noteq> streamChecksum (charToFlg fb)) True
          (ctx_emit (ctx_skip ctx k) out, False, xxhB, []))
       (\<lambda>(ctx3, quit3, xxhStream, futures).
           let ctx4 = lz4mtDecompress_join ctx3 futures;
               (ok', ctx5) = lz4mtDecompress_trailer (0 \<noteq> streamChecksum (charToFlg fb)) ctx4 xxhStream
           in if \<not> ok' then Some (ctx5, sd2)
              else lz4mtDecompress_frames tk (ctx5, sd2, quit3))"
    unfolding decompress_frames_header[OF io ok rem v le hc sd2] single
    by (simp only: c[symmetric] ctxH_def[symmetric] blocks1)
qed

lemma decompress_frame_complete:
  assumes io: "mem_io ctx" and ok: "\<not> error ctx"
    and seq: "mode ctx AND LZ4MT_MODE_SEQUENTIAL \<noteq> 0"
    and rem: "remaining (readCtx ctx) = storeU32 LZ4S_MAGICNUMBER @ [fb, bb] @ ext @ [hc]
        @ concat (map (\<lambda>b. block_record c (fst b) (snd b)) bs) @ storeU32 LZ4S_EOS @ tr"
    and v: "validateStreamDescriptor (sd0\<lparr>flg := charToFlg fb, bd := charToBc bb\<rparr>) = LZ4MT_RESULT_OK"
    and le: "length ext = (if streamSize (charToFlg fb) \<noteq> 0 then 8 else 0)"
    and hc: "hc = ucast (getCheckBits_FromXXH (XXH32 ([fb, bb] @ ext) LZ4S_CHECKSUM_SEED))"
    and sd2: "sd2 = sd0\<lparr>flg := charToFlg fb, bd := charToBc bb,
          streamSizeValue := (if streamSize (charToFlg fb) \<noteq> 0 then loadU64 (ext @ [hc])
                              else streamSizeValue sd0)\<rparr>"
    and c: "c = (if blockChecksum (charToFlg fb) \<noteq> 0 then 4 else 0)"
    and bo: "\<forall>b \<in> set bs. block_ok (decompress ctx) (getBlocksize (blockMaximumSize (charToBc bb))) b"
    and tr: "tr = (if streamChecksum (charToFlg fb) \<noteq> 0 then storeU32 t else [])"
    and out: "out = concat (map (block_content (decompress ctx)
                 (getBlocksize (blockMaximumSize (charToBc bb)))) bs)"
    and n: "n = length (remaining (readCtx ctx))"
  shows "lz4mtDecompress_frames tk (ctx, sd0, False) =
     Some (if streamChecksum (charToFlg fb) \<noteq> 0 \<and> XXH32 out LZ4S_CHECKSUM_SEED \<noteq> t
           then (ctx_emit (ctx_skip ctx n) out)\<lparr>result := LZ4MT_RESULT_STREAM_CHECKSUM_MISMATCH\<rparr>
           else ctx_emit (ctx_skip ctx n) out, sd2)"
proof -
  let ?B = "getBlocksize (blockMaximumSize (charToBc bb))"
  let ?s = "0 \<noteq> streamChecksum (charToFlg fb)"
  define wire where "wire = concat (map (\<lambda>b. block_record c (fst b) (snd b)) bs)"
  define ctxB where "ctxB = ctx_emit (ctx_skip ctx (7 + length ext + length wire)) out"
  define xxhB where "xxhB = (if ?s then (Xxh32_init LZ4S_CHECKSUM_SEED)
      \<lparr>xxh_input := xxh_input (Xxh32_init LZ4S_CHECKSUM_SEED) @ out\<rparr> else Xxh32_init LZ4S_CHECKSUM_SEED)"
  note fr = decompress_frame_blocks(1)[OF io ok seq rem v le hc sd2 c bo out refl xxhB_def,
      folded wire_def, folded ctxB_def]
  have remB: "remaining (readCtx ctxB) = storeU32 LZ4S_EOS @ tr"
    using decompress_frame_blocks(2)[OF io ok seq rem v le hc sd2 c bo out refl xxhB_def]
    by (simp only: ctxB_def wire_def)
  have ioB: "mem_io ctxB" "\<not> error ctxB"
    using io ok by (simp_all add: ctxB_def)
  have blocks2: "lz4mtDecompress_blocks tk ?B c ?s True (ctxB, False, xxhB, [])
     = Some (ctx_skip ctxB 4, False, xxhB, [])"
    by (rule decompress_blocks_eos[OF ioB remB])
  have remE: "remaining (readCtx (ctx_skip ctxB 4)) = tr"
    using remB by (simp add: length_storeU32)
  have ioE: "mem_io (ctx_skip ctxB 4)" "\<not> error (ctx_skip ctxB 4)"
    using ioB by simp_all
  have eofE: "\<And>k. ctx_readEof (ctx_skip ctxB (4 + length tr + k))"
    using ioB(1) remB by (simp add: ctx_readEof_mem mem_io_def length_storeU32)
  have fin: "ctx_skip ctxB (4 + length tr) = ctx_emit (ctx_skip ctx n) out"
  proof -
    have "7 + length ext + length wire + (4 + length tr) = n"
      using rem by (simp add: n wire_def length_storeU32)
    then show ?thesis by (simp add: ctxB_def add.assoc)
  qed
  have frames: "lz4mtDecompress_frames tk (ctx, sd0, False) =
     (let (ok', ctx5) = lz4mtDecompress_trailer ?s (ctx_skip ctxB 4) xxhB
      in if \<not> ok' then Some (ctx5, sd2) else lz4mtDecompress_frames tk (ctx5, sd2, False))"
    unfolding fr blocks2 by (simp add: join_Nil)
  show ?thesis
  proof (cases ?s)
    case False
    then have tr0: "tr = []" using tr by simp
    have "lz4mtDecompress_frames tk (ctx_skip ctxB 4, sd2, False) = Some (ctx_skip ctxB 4, sd2)"
      using eofE[of 0] tr0 by (simp add: decompress_frames_done)
    with False show ?thesis
      unfolding frames using fin tr0 by (simp add: trailer_off)
  next
    case True
    then have tr4: "tr = storeU32 t @ []" using tr by simp
    have dg: "Xxh32_digest xxhB = XXH32 out LZ4S_CHECKSUM_SEED"
      using True by (simp add: xxhB_def Xxh32_digest_init)
    have t: "lz4mtDecompress_trailer True (ctx_skip ctxB 4) xxhB =
       (XXH32 out LZ4S_CHECKSUM_SEED = t,
        if XXH32 out LZ4S_CHECKSUM_SEED = t then ctx_skip (ctx_skip ctxB 4) 4
        else (ctx_skip (ctx_skip ctxB 4) 4)\<lparr>result := LZ4MT_RESULT_STREAM_CHECKSUM_MISMATCH\<rparr>)"
      using trailer_mem[OF ioE, of t "[]" xxhB] remE tr4 by (simp add: dg)
    have l4: "length tr = 4" using tr4 by (simp add: length_storeU32)
    have stop: "lz4mtDecompress_frames tk (ctx_skip ctxB (4 + length tr), sd2, False)
        = Some (ctx_skip ctxB (4 + length tr), sd2)"
      using eofE[of 0] by (simp add: decompress_frames_done)
    show ?thesis
      unfolding frames using True stop fin by (simp add: t l4)
  qed
qed

text \<open>
  A frame cut after whole block records, where the block loop ends on the rest \<open>q\<close>
  of the input with the error \<open>r\<close>, all of \<open>q\<close> read.
\<close>

lemma decompress_frame_cut:
  assumes io: "mem_io ctx" and ok: "\<not> error ctx"
    and seq: "mode ctx AND LZ4MT_MODE_SEQUENTIAL \<noteq> 0"
    and rem: "remaining (readCtx ctx) = storeU32 LZ4S_MAGICNUMBER @ [fb, bb] @ ext @ [hc]
        @ concat (map (\<lambda>b. block_record c (fst b) (snd b)) bs) @ q"
    and v: "validateStreamDescriptor (sd0\<lparr>flg := charToFlg fb, bd := charToBc bb\<rparr>) = LZ4MT_RESULT_OK"
    and le: "length ext = (if streamSize (charToFlg fb) \<noteq> 0 then 8 else 0)"
    and hc: "hc = ucast (getCheckBits_FromXXH (XXH32 ([fb, bb] @ ext) LZ4S_CHECKSUM_SEED))"
    and sd2: "sd2 = sd0\<lparr>flg := charToFlg fb, bd := charToBc bb,
          streamSizeValue := (if streamSize (charToFlg fb) \<noteq> 0 then loadU64 (ext @ [hc])
                              else streamSizeValue sd0)\<rparr>"
    and c: "c = (if blockChecksum (charToFlg fb) \<noteq> 0 then 4 else 0)"
    and bo: "\<forall>b \<in> set bs. block_ok (decompress ctx) (getBlocksize (blockMaximumSize (charToBc bb))) b"
    and out: "out = concat (map (block_content (decompress ctx)
                 (getBlocksize (blockMaximumSize (charToBc bb)))) bs)"
    and n: "n = length (remaining (readCtx ctx))"
    and r: "r \<noteq> LZ4MT_RESULT_OK"
    and tail: "\<And>ctxB xxh. mem_io ctxB \<Longrightarrow> \<not> error ctxB \<Longrightarrow> remaining (readCtx ctxB) = q \<Longrightarrow>
        \<exists>j \<ge> length q.
        lz4mtDecompress_blocks tk (getBlocksize (blockMaximumSize (charToBc bb))) c
          (0 \<noteq> streamChecksum (charToFlg fb)) True (ctxB, False, xxh, [])
        = Some ((ctx_skip ctxB j)\<lparr>result := r\<rparr>, True, xxh, [])"
  shows "lz4mtDecompress_frames tk (ctx, sd0, False) =
     Some ((ctx_emit (ctx_skip ctx n) out)\<lparr>result := r\<rparr>, sd2)"
proof -
  let ?B = "getBlocksize (blockMaximumSize (charToBc bb))"
  let ?s = "0 \<noteq> streamChecksum (charToFlg fb)"
  define wire where "wire = concat (map (\<lambda>b. block_record c (fst b) (snd b)) bs)"
  define ctxB where "ctxB = ctx_emit (ctx_skip ctx (7 + length ext + length wire)) out"
  define xxhB where "xxhB = (if ?s then (Xxh32_init LZ4S_CHECKSUM_SEED)
      \<lparr>xxh_input := xxh_input (Xxh32_init LZ4S_CHECKSUM_SEED) @ out\<rparr> else Xxh32_init LZ4S_CHECKSUM_SEED)"
  note fr = decompress_frame_blocks(1)[OF io ok seq rem v le hc sd2 c bo out refl xxhB_def,
      folded wire_def, folded ctxB_def]
  have remB: "remaining (readCtx ctxB) = q"
    using decompress_frame_blocks(2)[OF io ok seq rem v le hc sd2 c bo out refl xxhB_def]
    by (simp only: ctxB_def wire_def)
  have ioB: "mem_io ctxB" "\<not> error ctxB"
    using io ok by (simp_all add: ctxB_def)
  from tail[OF ioB remB, of xxhB] obtain j where j: "length q \<le> j"
    and blocks2: "lz4mtDecompress_blocks tk ?B c ?s True (ctxB, False, xxhB, [])
        = Some ((ctx_skip ctxB j)\<lparr>result := r\<rparr>, True, xxhB, [])"
    by blast
  define ctxE where "ctxE = (ctx_skip ctxB j)\<lparr>result := r\<rparr>"
  have errE: "error ctxE" using r by (simp add: ctxE_def)
  have fin: "ctxE = (ctx_emit (ctx_skip ctx n) out)\<lparr>result := r\<rparr>"
  proof -
    have "length (remaining (readCtx ctxB)) \<le> j" using remB j by simp
    from ctx_skip_all[OF this] have "ctx_skip ctxB j = ctx_skip ctxB (length q)"
      by (simp add: remB)
    moreover have "7 + length ext + length wire + length q = n"
      using rem by (simp add: n wire_def length_storeU32)
    ultimately show ?thesis by (simp add: ctxE_def ctxB_def add.assoc)
  qed
  have "lz4mtDecompress_frames tk (ctx, sd0, False) = lz4mtDecompress_frames tk (ctxE, sd2, True)"
    unfolding fr blocks2 ctxE_def[symmetric]
    by (simp add: join_Nil trailer_error[OF errE])
  then show ?thesis
    by (simp add: decompress_frames_done fin)
qed

text \<open>A frame cut exactly behind a block record: the block loop ends on end of input.\<close>

lemma decompress_frame_boundary:
  assumes io: "mem_io ctx" and ok: "\<not> error ctx"
    and seq: "mode ctx AND LZ4MT_MODE_SEQUENTIAL \<noteq> 0"
    and rem: "remaining (readCtx ctx) = storeU32 LZ4S_MAGICNUMBER @ [fb, bb] @ ext @ [hc]
        @ concat (map (\<lambda>b. block_record c (fst b) (snd b)) bs) @ []"
    and v: "validateStreamDescriptor (sd0\<lparr>flg := charToFlg fb, bd := charToBc bb\<rparr>) = LZ4MT_RESULT_OK"
    and le: "length ext = (if streamSize (charToFlg fb) \<noteq> 0 then 8 else 0)"
    and hc: "hc = ucast (getCheckBits_FromXXH (XXH32 ([fb, bb] @ ext) LZ4S_CHECKSUM_SEED))"
    and sd2: "sd2 = sd0\<lparr>flg := charToFlg fb, bd := charToBc bb,
          streamSizeValue := (if streamSize (charToFlg fb) \<noteq> 0 then loadU64 (ext @ [hc])
                              else streamSizeValue sd0)\<rparr>"
    and c: "c = (if blockChecksum (charToFlg fb) \<noteq> 0 then 4 else 0)"
    and bo: "\<forall>b \<in> set bs. block_ok (decompress ctx) (getBlocksize (blockMaximumSize (charToBc bb))) b"
    and out: "out = concat (map (block_content (decompress ctx)
                 (getBlocksize (blockMaximumSize (charToBc bb)))) bs)"
    and n: "n = length (remaining (readCtx ctx))"
  shows "lz4mtDecompress_frames tk (ctx, sd0, False) =
     Some (if streamChecksum (charToFlg fb) \<noteq> 0
           then (ctx_emit (ctx_skip ctx n) out)\<lparr>result := LZ4MT_RESULT_CANNOT_READ_STREAM_CHECKSUM\<rparr>
           else ctx_emit (ctx_skip ctx n) out, sd2)"
proof -
  let ?B = "getBlocksize (blockMaximumSize (charToBc bb))"
  let ?s = "0 \<noteq> streamChecksum (charToFlg fb)"
  define wire where "wire = concat (map (\<lambda>b. block_record c (fst b) (snd b)) bs)"
  define ctxB where "ctxB = ctx_emit (ctx_skip ctx (7 + length ext + length wire)) out"
  define xxhB where "xxhB = (if ?s then (Xxh32_init LZ4S_CHECKSUM_SEED)
      \<lparr>xxh_input := xxh_input (Xxh32_init LZ4S_CHECKSUM_SEED) @ out\<rparr> else Xxh32_init LZ4S_CHECKSUM_SEED)"
  note fr = decompress_frame_blocks(1)[OF io ok seq rem v le hc sd2 c bo out refl xxhB_def,
      folded wire_def, folded ctxB_def]
  have remB: "remaining (readCtx ctxB) = []"
    using decompress_frame_blocks(2)[OF io ok seq rem v le hc sd2 c bo out refl xxhB_def]
    by (simp only: ctxB_def wire_def)
  have ioB: "mem_io ctxB" "\<not> error ctxB"
    using io ok by (simp_all add: ctxB_def)
  have blocks2: "lz4mtDecompress_blocks tk ?B c ?s True (ctxB, False, xxhB, [])
     = Some (ctxB, False, xxhB, [])"
    by (rule decompress_blocks_eof[OF ioB(1) remB])
  have eofB: "ctx_readEof ctxB"
    using ioB(1) remB by (simp add: ctx_readEof_mem mem_io_def)
  have nB: "7 + length ext + length wire = n"
    using rem by (simp add: n wire_def length_storeU32)
  have fin: "ctxB = ctx_emit (ctx_skip ctx n) out" by (simp add: ctxB_def nB)
  have fin4: "ctx_skip ctxB 4 = ctx_emit (ctx_skip ctx n) out"
  proof -
    have "length (remaining (readCtx ctxB)) \<le> 4" using remB by simp
    from ctx_skip_all[OF this] have "ctx_skip ctxB 4 = ctx_skip ctxB 0" by (simp add: remB)
    also have "\<dots> = ctxB" by (simp add: ctx_skip_def)
    finally show ?thesis by (simp add: fin)
  qed
  have frames: "lz4mtDecompress_frames tk (ctx, sd0, False) =
     (let (ok', ctx5) = lz4mtDecompress_trailer ?s ctxB xxhB
      in if \<not> ok' then Some (ctx5, sd2) else lz4mtDecompress_frames tk (ctx5, sd2, False))"
    unfolding fr blocks2 by (simp add: join_Nil)
  show ?thesis
  proof (cases ?s)
    case False
    have "lz4mtDecompress_frames tk (ctxB, sd2, False) = Some (ctxB, sd2)"
      using eofB by (simp add: decompress_frames_done)
    with False show ?thesis
      unfolding frames using fin by (simp add: trailer_off)
  next
    case True
    have "lz4mtDecompress_trailer True ctxB xxhB =
       (False, (ctx_skip ctxB 4)\<lparr>result := LZ4MT_RESULT_CANNOT_READ_STREAM_CHECKSUM\<rparr>)"
      by (rule trailer_mem_short[OF ioB]) (simp add: remB)
    with True show ?thesis
      unfolding frames by (simp add: fin4)
  qed
qed

lemma compressed_block_ok:
  assumes ci: "codec_inverse cmp dec B" and l: "int (length src) \<le> B" and ne: "src \<noteq> []"
  shows "block_ok dec B (compressed_block cmp src)"
    and "block_content dec B (compressed_block cmp src) = src"
proof -
  obtain cmpSize dst where cd: "cmp src (int (length src)) = (cmpSize, dst)" by force
  from ci l have all: "compress_contract cmp src
      \<and> (0 < fst (cmp src (int (length src))) \<longrightarrow>
             fst (dec (take (nat (fst (cmp src (int (length src)))))
                        (snd (cmp src (int (length src))))) B) = int (length src)
             \<and> take (length src)
                  (snd (dec (take (nat (fst (cmp src (int (length src)))))
                              (snd (cmp src (int (length src))))) B)) = src)"
    unfolding codec_inverse_def by blast
  then have cc: "length src < 2 ^ 31" "length dst = length src" "cmpSize \<le> int (length src)"
    using cd by (simp_all add: compress_contract_def)
  have both: "block_ok dec B (compressed_block cmp src)
      \<and> block_content dec B (compressed_block cmp src) = src"
  proof (cases "cmpSize \<le> 0")
    case True
    then show ?thesis
      using cd cc by (simp add: compressed_block_def block_ok_def block_content_def)
  next
    case False
    obtain decSize out where d: "dec (take (nat cmpSize) dst) B = (decSize, out)" by force
    from all cd False d have inv: "decSize = int (length src)" "take (length src) out = src"
      by simp_all
    from inv(2) have lo: "length src \<le> length out"
      by (metis length_take min.cobounded1 min.commute)
    from False cc have lt: "length (take (nat cmpSize) dst) = nat cmpSize" "nat cmpSize \<le> length src"
      by simp_all
    have "block_ok dec B (compressed_block cmp src)"
      using False cd cc d inv lo lt ne
      by (auto simp add: compressed_block_def block_ok_def)
    moreover have "block_content dec B (compressed_block cmp src) = src"
      using False cd d inv by (simp add: compressed_block_def block_content_def)
    ultimately show ?thesis by simp
  qed
  then show "block_ok dec B (compressed_block cmp src)"
    and "block_content dec B (compressed_block cmp src) = src"
    by simp_all
qed

lemma compressed_blocks_wire:
  "concat (map (compressed_record cmp c) xs)
     = concat (map (\<lambda>b. block_record c (fst b) (snd b)) (map (compressed_block cmp) xs))"
  by (simp add: compressed_record_def[abs_def] comp_def)

lemma compressed_blocks_content:
  assumes ci: "codec_inverse cmp dec B" and B: "0 < B"
  shows "\<forall>b \<in> set (map (compressed_block cmp) (blocks_of (nat B) S)). block_ok dec B b"
    and "concat (map (block_content dec B) (map (compressed_block cmp) (blocks_of (nat B) S))) = S"
proof -
  have each: "\<And>src. src \<in> set (blocks_of (nat B) S) \<Longrightarrow>
      block_ok dec B (compressed_block cmp src) \<and> block_content dec B (compressed_block cmp src) = src"
  proof -
    fix src assume "src \<in> set (blocks_of (nat B) S)"
    from blocks_of_length_le[OF this] have "int (length src) \<le> B" "src \<noteq> []" using B by auto
    from compressed_block_ok[OF ci this]
    show "block_ok dec B (compressed_block cmp src) \<and> block_content dec B (compressed_block cmp src) = src"
      by simp
  qed
  then show "\<forall>b \<in> set (map (compressed_block cmp) (blocks_of (nat B) S)). block_ok dec B b"
    by auto
  have "map (block_content dec B) (map (compressed_block cmp) (blocks_of (nat B) S)) = blocks_of (nat B) S"
    using each by (simp add: map_idI)
  then show "concat (map (block_content dec B) (map (compressed_block cmp) (blocks_of (nat B) S))) = S"
    using concat_blocks_of[of "nat B" S] B by simp
qed

subsection \<open>Frames and descriptors\<close>

lemma length_storeU64: "length (storeU64 v) = 8"
  by (simp add: storeU64_def length_storeU32)

lemma compress_header_form:
  assumes "presetDictionary (flg D) = 0"
  shows "lz4mtCompress_header D = storeU32 LZ4S_MAGICNUMBER
     @ [flgToChar (flg D), bdToChar (bd D)]
     @ (if streamSize (flg D) \<noteq> 0 then storeU64 (streamSizeValue D) else [])
     @ [ucast (getCheckBits_FromXXH (XXH32 ([flgToChar (flg D), bdToChar (bd D)]
          @ (if streamSize (flg D) \<noteq> 0 then storeU64 (streamSizeValue D) else []))
          LZ4S_CHECKSUM_SEED))]"
  using assms by (simp add: lz4mtCompress_header_def Let_def)

lemma descriptor_bytes:
  assumes v: "validateStreamDescriptor D = LZ4MT_RESULT_OK" and fb: "flags_are_bits D"
  shows "charToFlg (flgToChar (flg D)) = flg D" and "charToBc (bdToChar (bd D)) = bd D"
proof -
  note f = validate_OK_fields[OF v]
  from fb f(4) have bi: "blockIndependance (flg D) = 1" by (auto simp: flags_are_bits_def)
  show "charToFlg (flgToChar (flg D)) = flg D"
    using fb by (intro charToFlg_flgToChar f(1,2,3) bi) (simp_all add: flags_are_bits_def)
  show "charToBc (bdToChar (bd D)) = bd D"
    by (intro charToBc_bdToChar f)
qed

lemma validate_flg_bd:
  "validateStreamDescriptor (sd0\<lparr>flg := flg D, bd := bd D\<rparr>) = validateStreamDescriptor D"
  by (simp add: validateStreamDescriptor_def)

text \<open>The header written for \<open>D\<close>, as the decoder reads it.\<close>

lemma header_of_descriptor:
  assumes v: "validateStreamDescriptor D = LZ4MT_RESULT_OK" and fb: "flags_are_bits D"
  shows "\<exists>fb' bb ext hc.
      lz4mtCompress_header D = storeU32 LZ4S_MAGICNUMBER @ [fb', bb] @ ext @ [hc]
    \<and> charToFlg fb' = flg D \<and> charToBc bb = bd D
    \<and> length ext = (if streamSize (flg D) \<noteq> 0 then 8 else 0)
    \<and> hc = ucast (getCheckBits_FromXXH (XXH32 ([fb', bb] @ ext) LZ4S_CHECKSUM_SEED))"
proof -
  note db = descriptor_bytes[OF v fb]
  let ?fb = "flgToChar (flg D)" and ?bb = "bdToChar (bd D)"
  let ?ext = "if streamSize (flg D) \<noteq> 0 then storeU64 (streamSizeValue D) else []"
  let ?hc = "ucast (getCheckBits_FromXXH (XXH32 ([?fb, ?bb] @ ?ext) LZ4S_CHECKSUM_SEED)) :: byte"
  have "lz4mtCompress_header D = storeU32 LZ4S_MAGICNUMBER @ [?fb, ?bb] @ ?ext @ [?hc]"
    unfolding compress_header_form[OF validate_OK_fields(2)[OF v]] by simp
  moreover have "length ?ext = (if streamSize (flg D) \<noteq> 0 then 8 else 0)"
    by (simp add: length_storeU64)
  ultimately show ?thesis using db by blast
qed

text \<open>The descriptor the decoder stores for a frame written for \<open>D\<close>.\<close>

lemma decompress_frame_of_descriptor:
  assumes io: "mem_io ctx" and ok: "\<not> error ctx"
    and seq: "mode ctx AND LZ4MT_MODE_SEQUENTIAL \<noteq> 0"
    and v: "validateStreamDescriptor D = LZ4MT_RESULT_OK" and fb: "flags_are_bits D"
    and rem: "remaining (readCtx ctx) = lz4mtCompress_header D
        @ concat (map (\<lambda>b. block_record (if blockChecksum (flg D) \<noteq> 0 then 4 else 0) (fst b) (snd b)) bs)
        @ storeU32 LZ4S_EOS
        @ (if streamChecksum (flg D) \<noteq> 0 then storeU32 t else [])"
    and bo: "\<forall>b \<in> set bs. block_ok (decompress ctx) (getBlocksize (blockMaximumSize (bd D))) b"
    and out: "out = concat (map (block_content (decompress ctx)
                 (getBlocksize (blockMaximumSize (bd D)))) bs)"
  shows "\<exists>sd2. lz4mtDecompress_frames tk (ctx, sd0, False) =
     Some (if streamChecksum (flg D) \<noteq> 0 \<and> XXH32 out LZ4S_CHECKSUM_SEED \<noteq> t
           then (ctx_emit (ctx_skip ctx (length (remaining (readCtx ctx)))) out)
                  \<lparr>result := LZ4MT_RESULT_STREAM_CHECKSUM_MISMATCH\<rparr>
           else ctx_emit (ctx_skip ctx (length (remaining (readCtx ctx)))) out, sd2)
     \<and> flg sd2 = flg D \<and> bd sd2 = bd D"
proof -
  from header_of_descriptor[OF v fb] obtain fb' bb ext hc where
    h: "lz4mtCompress_header D = storeU32 LZ4S_MAGICNUMBER @ [fb', bb] @ ext @ [hc]"
    and db: "charToFlg fb' = flg D" "charToBc bb = bd D"
    and le: "length ext = (if streamSize (flg D) \<noteq> 0 then 8 else 0)"
    and hc: "hc = ucast (getCheckBits_FromXXH (XXH32 ([fb', bb] @ ext) LZ4S_CHECKSUM_SEED))"
    by blast
  let ?sd2 = "sd0\<lparr>flg := charToFlg fb', bd := charToBc bb,
          streamSizeValue := (if streamSize (charToFlg fb') \<noteq> 0 then loadU64 (ext @ [hc])
                              else streamSizeValue sd0)\<rparr>"
  have rem': "remaining (readCtx ctx) = storeU32 LZ4S_MAGICNUMBER @ [fb', bb] @ ext @ [hc]
        @ concat (map (\<lambda>b. block_record (if blockChecksum (flg D) \<noteq> 0 then 4 else 0) (fst b) (snd b)) bs)
        @ storeU32 LZ4S_EOS
        @ (if streamChecksum (flg D) \<noteq> 0 then storeU32 t else [])"
    unfolding rem h by simp
  have v': "validateStreamDescriptor (sd0\<lparr>flg := charToFlg fb', bd := charToBc bb\<rparr>) = LZ4MT_RESULT_OK"
    by (simp add: db validate_flg_bd v)
  have le': "length ext = (if streamSize (charToFlg fb') \<noteq> 0 then 8 else 0)"
    by (simp add: db le)
  have "lz4mtDecompress_frames tk (ctx, sd0, False) =
     Some (if streamChecksum (charToFlg fb') \<noteq> 0 \<and> XXH32 out LZ4S_CHECKSUM_SEED \<noteq> t
           then (ctx_emit (ctx_skip ctx (length (remaining (readCtx ctx)))) out)
                  \<lparr>result := LZ4MT_RESULT_STREAM_CHECKSUM_MISMATCH\<rparr>
           else ctx_emit (ctx_skip ctx (length (remaining (readCtx ctx)))) out, ?sd2)"
    by (rule decompress_frame_complete[OF io ok seq rem' v' le' hc refl _ _ _ _ refl, where t = t])
      (use bo out in \<open>simp_all add: db\<close>)
  then show ?thesis by (intro exI[of _ ?sd2]) (simp add: db)
qed

lemma decompress_cut_frame_of_descriptor:
  assumes io: "mem_io ctx" and ok: "\<not> error ctx"
    and seq: "mode ctx AND LZ4MT_MODE_SEQUENTIAL \<noteq> 0"
    and v: "validateStreamDescriptor D = LZ4MT_RESULT_OK" and fb: "flags_are_bits D"
    and rem: "remaining (readCtx ctx) = lz4mtCompress_header D
        @ concat (map (\<lambda>b. block_record (if blockChecksum (flg D) \<noteq> 0 then 4 else 0) (fst b) (snd b)) bs)
        @ q"
    and bo: "\<forall>b \<in> set bs. block_ok (decompress ctx) (getBlocksize (blockMaximumSize (bd D))) b"
    and out: "out = concat (map (block_content (decompress ctx)
                 (getBlocksize (blockMaximumSize (bd D)))) bs)"
    and r: "r \<noteq> LZ4MT_RESULT_OK"
    and tail: "\<And>ctxB xxh. mem_io ctxB \<Longrightarrow> \<not> error ctxB \<Longrightarrow> remaining (readCtx ctxB) = q \<Longrightarrow>
        \<exists>j \<ge> length q.
        lz4mtDecompress_blocks tk (getBlocksize (blockMaximumSize (bd D)))
          (if blockChecksum (flg D) \<noteq> 0 then 4 else 0)
          (0 \<noteq> streamChecksum (flg D)) True (ctxB, False, xxh, [])
        = Some ((ctx_skip ctxB j)\<lparr>result := r\<rparr>, True, xxh, [])"
  shows "\<exists>sd2. lz4mtDecompress_frames tk (ctx, sd0, False) =
     Some ((ctx_emit (ctx_skip ctx (length (remaining (readCtx ctx)))) out)\<lparr>result := r\<rparr>, sd2)"
proof -
  from header_of_descriptor[OF v fb] obtain fb' bb ext hc where
    h: "lz4mtCompress_header D = storeU32 LZ4S_MAGICNUMBER @ [fb', bb] @ ext @ [hc]"
    and db: "charToFlg fb' = flg D" "charToBc bb = bd D"
    and le: "length ext = (if streamSize (flg D) \<noteq> 0 then 8 else 0)"
    and hc: "hc = ucast (getCheckBits_FromXXH (XXH32 ([fb', bb] @ ext) LZ4S_CHECKSUM_SEED))"
    by blast
  let ?sd2 = "sd0\<lparr>flg := charToFlg fb', bd := charToBc bb,
          streamSizeValue := (if streamSize (charToFlg fb') \<noteq> 0 then loadU64 (ext @ [hc])
                              else streamSizeValue sd0)\<rparr>"
  have rem': "remaining (readCtx ctx) = storeU32 LZ4S_MAGICNUMBER @ [fb', bb] @ ext @ [hc]
        @ concat (map (\<lambda>b. block_record (if blockChecksum (flg D) \<noteq> 0 then 4 else 0) (fst b) (snd b)) bs)
        @ q"
    unfolding rem h by simp
  have v': "validateStreamDescriptor (sd0\<lparr>flg := charToFlg fb', bd := charToBc bb\<rparr>) = LZ4MT_RESULT_OK"
    by (simp add: db validate_flg_bd v)
  have le': "length ext = (if streamSize (charToFlg fb') \<noteq> 0 then 8 else 0)"
    by (simp add: db le)
  have "lz4mtDecompress_frames tk (ctx, sd0, False) =
     Some ((ctx_emit (ctx_skip ctx (length (remaining (readCtx ctx)))) out)\<lparr>result := r\<rparr>, ?sd2)"
  proof (rule decompress_frame_cut[OF io ok seq rem' v' le' hc refl _ _ _ refl r])
    show "(if blockChecksum (flg D) \<noteq> 0 then 4 else 0)
        = (if blockChecksum (charToFlg fb') \<noteq> 0 then 4 else (0 :: int))"
      by (simp add: db)
    show "\<forall>b \<in> set bs. block_ok (decompress ctx) (getBlocksize (blockMaximumSize (charToBc bb))) b"
      using bo by (simp add: db)
    show "out = concat (map (block_content (decompress ctx)
                 (getBlocksize (blockMaximumSize (charToBc bb)))) bs)"
      using out by (simp add: db)
    fix ctxB :: "(mem_reader, byte list) Lz4MtContext" and xxh
    assume "mem_io ctxB" "\<not> error ctxB" "remaining (readCtx ctxB) = q"
    from tail[OF this, of xxh]
    show "\<exists>j \<ge> length q.
        lz4mtDecompress_blocks tk (getBlocksize (blockMaximumSize (charToBc bb)))
          (if blockChecksum (flg D) \<noteq> 0 then 4 else 0)
          (0 \<noteq> streamChecksum (charToFlg fb')) True (ctxB, False, xxh, [])
        = Some ((ctx_skip ctxB j)\<lparr>result := r\<rparr>, True, xxh, [])"
      by (simp add: db)
  qed
  then show ?thesis by blast
qed

lemma decompress_boundary_frame_of_descriptor:
  assumes io: "mem_io ctx" and ok: "\<not> error ctx"
    and seq: "mode ctx AND LZ4MT_MODE_SEQUENTIAL \<noteq> 0"
    and v: "validateStreamDescriptor D = LZ4MT_RESULT_OK" and fb: "flags_are_bits D"
    and rem: "remaining (readCtx ctx) = lz4mtCompress_header D
        @ concat (map (\<lambda>b. block_record (if blockChecksum (flg D) \<noteq> 0 then 4 else 0) (fst b) (snd b)) bs)"
    and bo: "\<forall>b \<in> set bs. block_ok (decompress ctx) (getBlocksize (blockMaximumSize (bd D))) b"
    and out: "out = concat (map (block_content (decompress ctx)
                 (getBlocksize (blockMaximumSize (bd D)))) bs)"
  shows "\<exists>sd2. lz4mtDecompress_frames tk (ctx, sd0, False) =
     Some (if streamChecksum (flg D) \<noteq> 0
           then (ctx_emit (ctx_skip ctx (length (remaining (readCtx ctx)))) out)
                  \<lparr>result := LZ4MT_RESULT_CANNOT_READ_STREAM_CHECKSUM\<rparr>
           else ctx_emit (ctx_skip ctx (length (remaining (readCtx ctx)))) out, sd2)"
proof -
  from header_of_descriptor[OF v fb] obtain fb' bb ext hc where
    h: "lz4mtCompress_header D = storeU32 LZ4S_MAGICNUMBER @ [fb', bb] @ ext @ [hc]"
    and db: "charToFlg fb' = flg D" "charToBc bb = bd D"
    and le: "length ext = (if streamSize (flg D) \<noteq> 0 then 8 else 0)"
    and hc: "hc = ucast (getCheckBits_FromXXH (XXH32 ([fb', bb] @ ext) LZ4S_CHECKSUM_SEED))"
    by blast
  let ?sd2 = "sd0\<lparr>flg := charToFlg fb', bd := charToBc bb,
          streamSizeValue := (if streamSize (charToFlg fb') \<noteq> 0 then loadU64 (ext @ [hc])
                              else streamSizeValue sd0)\<rparr>"
  have rem': "remaining (readCtx ctx) = storeU32 LZ4S_MAGICNUMBER @ [fb', bb] @ ext @ [hc]
        @ concat (map (\<lambda>b. block_record (if blockChecksum (flg D) \<noteq> 0 then 4 else 0) (fst b) (snd b)) bs)
        @ []"
    unfolding rem h by simp
  have v': "validateStreamDescriptor (sd0\<lparr>flg := charToFlg fb', bd := charToBc bb\<rparr>) = LZ4MT_RESULT_OK"
    by (simp add: db validate_flg_bd v)
  have le': "length ext = (if streamSize (charToFlg fb') \<noteq> 0 then 8 else 0)"
    by (simp add: db le)
  have "lz4mtDecompress_frames tk (ctx, sd0, False) =
     Some (if streamChecksum (charToFlg fb') \<noteq> 0
           then (ctx_emit (ctx_skip ctx (length (remaining (readCtx ctx)))) out)
                  \<lparr>result := LZ4MT_RESULT_CANNOT_READ_STREAM_CHECKSUM\<rparr>
           else ctx_emit (ctx_skip ctx (length (remaining (readCtx ctx)))) out, ?sd2)"
    by (rule decompress_frame_boundary[OF io ok seq rem' v' le' hc refl _ _ _ refl])
      (use bo out in \<open>simp_all add: db\<close>)
  then show ?thesis by (simp add: db)
qed

lemma mem_context_simps [simp]:
  "mem_io (mem_context cmp dec m S)"
  "\<not> error (mem_context cmp dec m S)"
  "result (mem_context cmp dec m S) = LZ4MT_RESULT_OK"
  "remaining (readCtx (mem_context cmp dec m S)) = S"
  "writeCtx (mem_context cmp dec m S) = []"
  "compress (mem_context cmp dec m S) = cmp"
  "decompress (mem_context cmp dec m S) = dec"
  "mode (mem_context cmp dec m S) = m"
  by (simp_all add: mem_context_def mem_io_def error_def)

lemma setResult_OK_id: "\<not> error ctx \<Longrightarrow> setResult ctx LZ4MT_RESULT_OK = ctx"
  by (simp add: setResult_def error_def)

lemma lz4mtDecompress_frames_result:
  assumes "\<not> error ctx" "lz4mtDecompress_frames tk (ctx, sd0, False) = Some (ctx2, sd2)"
  shows "lz4mtDecompress tk ctx sd0 = Some (result ctx2, ctx2, sd2)"
  using assms by (simp add: lz4mtDecompress_def setResult_OK_id)

subsection \<open>Descriptor validation\<close>

lemma decompress_invalid_descriptor:
  assumes io: "mem_io ctx" and ok: "\<not> error ctx"
    and rem: "remaining (readCtx ctx) = storeU32 LZ4S_MAGICNUMBER @ [f, b] @ rest"
    and nv: "validateStreamDescriptor (sd0\<lparr>flg := charToFlg f, bd := charToBc b\<rparr>) \<noteq> LZ4MT_RESULT_OK"
  shows "lz4mtDecompress_frames tk (ctx, sd0, False) =
     Some ((ctx_skip ctx 6)
             \<lparr>result := validateStreamDescriptor (sd0\<lparr>flg := charToFlg f, bd := charToBc b\<rparr>)\<rparr>,
           sd0\<lparr>flg := charToFlg f, bd := charToBc b\<rparr>)"
proof -
  from io have rd: "read ctx = mem_read" and eof: "readEof ctx = mem_readEof"
    by (simp_all add: mem_io_def)
  have ne: "\<not> ctx_readEof ctx"
    using rem length_storeU32[of LZ4S_MAGICNUMBER] by (auto simp: ctx_readEof_mem[OF eof])
  have r1: "readU32 ctx = (LZ4S_MAGICNUMBER, ctx_skip ctx 4)"
    using readU32_mem[OF rd ok] rem by simp
  have rem4: "remaining (readCtx (ctx_skip ctx 4)) = [f, b] @ rest"
    using rem by (simp add: length_storeU32)
  have rd4: "read (ctx_skip ctx 4) = mem_read" using rd by simp
  have r2: "ctx_read (ctx_skip ctx 4) 2 = ([f, b], ctx_skip ctx 6)"
    using rem4 by (simp add: ctx_read_mem[OF rd4])
  have ok6: "\<not> error (ctx_skip ctx 6)" using ok by simp
  have h: "lz4mtDecompress_header (ctx_skip ctx 4) sd0 =
      (False, (ctx_skip ctx 6)
             \<lparr>result := validateStreamDescriptor (sd0\<lparr>flg := charToFlg f, bd := charToBc b\<rparr>)\<rparr>,
       sd0\<lparr>flg := charToFlg f, bd := charToBc b\<rparr>)"
    using nv by (simp add: lz4mtDecompress_header_def r2 Let_def setResult_OK[OF ok6])
  show ?thesis
    by (subst lz4mtDecompress_frames.simps)
      (simp add: ne ok r1 not_skippable_magic h Let_def split del: if_split cong: if_cong)
qed

text \<open>
  C3, as the code has it. A descriptor with a reserved field set is never accepted,
  and the code is that of the first check that fails, in the order version, preset
  dictionary, reserved1, block independence, block maximum size, reserved3, reserved2:

  \<^item> InvalidVersion iff the version is not 1;
  \<^item> PresetDictionaryIsNotSupportedYet iff the version is 1 and a preset dictionary is
    asked for;
  \<^item> InvalidHeader iff the version is 1, no preset dictionary is asked for, and either
    reserved1 is set, or block independence is set and the block maximum size is
    within 4..7;
  \<^item> BlockDependenceIsNotSupportedYet iff the version is 1, no preset dictionary is asked
    for, reserved1 is clear and block independence is clear;
  \<^item> InvalidBlockMaximumSize iff the version is 1, no preset dictionary is asked for,
    reserved1 is clear, block independence is set and the block maximum size is outside
    4..7;

  and it is one of these five. A frame whose FLG and BD bytes decode to such a
  descriptor is rejected with the code of \<open>validateStreamDescriptor\<close>: by the header
  reader for arbitrary callbacks, and by \<open>lz4mtDecompress\<close> on an in-memory input, in
  either mode.
\<close>

theorem validateStreamDescriptor_reserved:
  assumes "reserved1 (flg sd) \<noteq> 0 \<or> reserved2 (bd sd) \<noteq> 0 \<or> reserved3 (bd sd) \<noteq> 0"
  shows "validateStreamDescriptor sd \<noteq> LZ4MT_RESULT_OK
     \<and> (validateStreamDescriptor sd = LZ4MT_RESULT_INVALID_VERSION \<longleftrightarrow>
          versionNumber (flg sd) \<noteq> 1)
     \<and> (validateStreamDescriptor sd = LZ4MT_RESULT_PRESET_DICTIONARY_IS_NOT_SUPPORTED_YET \<longleftrightarrow>
          versionNumber (flg sd) = 1 \<and> presetDictionary (flg sd) \<noteq> 0)
     \<and> (validateStreamDescriptor sd = LZ4MT_RESULT_INVALID_HEADER \<longleftrightarrow>
          versionNumber (flg sd) = 1 \<and> presetDictionary (flg sd) = 0 \<and>
          (reserved1 (flg sd) \<noteq> 0 \<or>
           (blockIndependance (flg sd) \<noteq> 0 \<and> 4 \<le> blockMaximumSize (bd sd)
              \<and> blockMaximumSize (bd sd) \<le> 7)))
     \<and> (validateStreamDescriptor sd = LZ4MT_RESULT_BLOCK_DEPENDENCE_IS_NOT_SUPPORTED_YET \<longleftrightarrow>
          versionNumber (flg sd) = 1 \<and> presetDictionary (flg sd) = 0
          \<and> reserved1 (flg sd) = 0 \<and> blockIndependance (flg sd) = 0)
     \<and> (validateStreamDescriptor sd = LZ4MT_RESULT_INVALID_BLOCK_MAXIMUM_SIZE \<longleftrightarrow>
          versionNumber (flg sd) = 1 \<and> presetDictionary (flg sd) = 0
          \<and> reserved1 (flg sd) = 0 \<and> blockIndependance (flg sd) \<noteq> 0
          \<and> (blockMaximumSize (bd sd) < 4 \<or> 7 < blockMaximumSize (bd sd)))
     \<and> validateStreamDescriptor sd \<in>
          {LZ4MT_RESULT_INVALID_VERSION, LZ4MT_RESULT_PRESET_DICTIONARY_IS_NOT_SUPPORTED_YET,
           LZ4MT_RESULT_INVALID_HEADER, LZ4MT_RESULT_BLOCK_DEPENDENCE_IS_NOT_SUPPORTED_YET,
           LZ4MT_RESULT_INVALID_BLOCK_MAXIMUM_SIZE}
     \<and> (\<forall>ctx sd0 f b.
          result ctx = LZ4MT_RESULT_OK \<and> fst (ctx_read ctx 2) = [f, b]
          \<and> charToFlg f = flg sd \<and> charToBc b = bd sd \<longrightarrow>
          lz4mtDecompress_header (ctx :: ('r, 'w) Lz4MtContext) sd0
            = (False, (snd (ctx_read ctx 2))\<lparr>result := validateStreamDescriptor sd\<rparr>,
               sd0\<lparr>flg := flg sd, bd := bd sd\<rparr>))
     \<and> (\<forall>tk cmp dec m sd0 f b rest.
          charToFlg f = flg sd \<and> charToBc b = bd sd \<longrightarrow>
          map_option (\<lambda>(r, c, d). (r, writeCtx c))
            (lz4mtDecompress tk
               (mem_context cmp dec m (storeU32 LZ4S_MAGICNUMBER @ [f, b] @ rest)) sd0)
            = Some (validateStreamDescriptor sd, []))"
proof (intro conjI allI impI)
  show v: "validateStreamDescriptor sd \<noteq> LZ4MT_RESULT_OK"
    using assms by (auto simp: validateStreamDescriptor_def)
  show "validateStreamDescriptor sd = LZ4MT_RESULT_INVALID_VERSION \<longleftrightarrow>
          versionNumber (flg sd) \<noteq> 1"
    by (auto simp: validateStreamDescriptor_def)
  show "validateStreamDescriptor sd = LZ4MT_RESULT_PRESET_DICTIONARY_IS_NOT_SUPPORTED_YET \<longleftrightarrow>
          versionNumber (flg sd) = 1 \<and> presetDictionary (flg sd) \<noteq> 0"
    by (auto simp: validateStreamDescriptor_def)
  show "validateStreamDescriptor sd = LZ4MT_RESULT_INVALID_HEADER \<longleftrightarrow>
          versionNumber (flg sd) = 1 \<and> presetDictionary (flg sd) = 0 \<and>
          (reserved1 (flg sd) \<noteq> 0 \<or>
           (blockIndependance (flg sd) \<noteq> 0 \<and> 4 \<le> blockMaximumSize (bd sd)
              \<and> blockMaximumSize (bd sd) \<le> 7))"
    using assms by (auto simp: validateStreamDescriptor_def)
  show "validateStreamDescriptor sd = LZ4MT_RESULT_BLOCK_DEPENDENCE_IS_NOT_SUPPORTED_YET \<longleftrightarrow>
          versionNumber (flg sd) = 1 \<and> presetDictionary (flg sd) = 0
          \<and> reserved1 (flg sd) = 0 \<and> blockIndependance (flg sd) = 0"
    by (auto simp: validateStreamDescriptor_def)
  show "validateStreamDescriptor sd = LZ4MT_RESULT_INVALID_BLOCK_MAXIMUM_SIZE \<longleftrightarrow>
          versionNumber (flg sd) = 1 \<and> presetDictionary (flg sd) = 0
          \<and> reserved1 (flg sd) = 0 \<and> blockIndependance (flg sd) \<noteq> 0
          \<and> (blockMaximumSize (bd sd) < 4 \<or> 7 < blockMaximumSize (bd sd))"
    by (auto simp: validateStreamDescriptor_def)
  show "validateStreamDescriptor sd \<in>
          {LZ4MT_RESULT_INVALID_VERSION, LZ4MT_RESULT_PRESET_DICTIONARY_IS_NOT_SUPPORTED_YET,
           LZ4MT_RESULT_INVALID_HEADER, LZ4MT_RESULT_BLOCK_DEPENDENCE_IS_NOT_SUPPORTED_YET,
           LZ4MT_RESULT_INVALID_BLOCK_MAXIMUM_SIZE}"
    using assms by (auto simp: validateStreamDescriptor_def)
  {
    fix ctx :: "('r, 'w) Lz4MtContext" and sd0 f b
    assume a: "result ctx = LZ4MT_RESULT_OK \<and> fst (ctx_read ctx 2) = [f, b]
          \<and> charToFlg f = flg sd \<and> charToBc b = bd sd"
    obtain d ctx1 where r: "ctx_read ctx 2 = (d, ctx1)" by force
    with a have d: "d = [f, b]" by simp
    have res: "result ctx1 = LZ4MT_RESULT_OK"
      using r a by (auto simp: ctx_read_def split: prod.splits)
    have eq: "validateStreamDescriptor (sd0\<lparr>flg := flg sd, bd := bd sd\<rparr>)
      = validateStreamDescriptor sd"
      by (simp add: validateStreamDescriptor_def)
    show "lz4mtDecompress_header ctx sd0
      = (False, (snd (ctx_read ctx 2))\<lparr>result := validateStreamDescriptor sd\<rparr>,
         sd0\<lparr>flg := flg sd, bd := bd sd\<rparr>)"
      using a v by (simp add: lz4mtDecompress_header_def r d eq setResult_fresh res)
  }
  fix tk :: "(mem_reader, byte list) async_tasks" and cmp dec m sd0 f b rest
  assume a: "charToFlg f = flg sd \<and> charToBc b = bd sd"
  let ?dctx = "mem_context cmp dec m (storeU32 LZ4S_MAGICNUMBER @ [f, b] @ rest)"
  have eq: "validateStreamDescriptor (sd0\<lparr>flg := charToFlg f, bd := charToBc b\<rparr>)
      = validateStreamDescriptor sd"
    using a by (simp add: validateStreamDescriptor_def)
  have io: "mem_io ?dctx" and ok: "\<not> error ?dctx"
    and rem: "remaining (readCtx ?dctx) = storeU32 LZ4S_MAGICNUMBER @ [f, b] @ rest"
    by simp_all
  from decompress_invalid_descriptor[OF io ok rem, of sd0 tk] v
  have "lz4mtDecompress_frames tk (?dctx, sd0, False) =
     Some ((ctx_skip ?dctx 6)\<lparr>result := validateStreamDescriptor sd\<rparr>,
           sd0\<lparr>flg := charToFlg f, bd := charToBc b\<rparr>)"
    by (simp add: eq)
  from lz4mtDecompress_frames_result[OF ok this]
  show "map_option (\<lambda>(r, c, d). (r, writeCtx c)) (lz4mtDecompress tk ?dctx sd0)
            = Some (validateStreamDescriptor sd, [])"
    by simp
qed

text \<open>
  A descriptor with reserved3 set and everything else in order is rejected with
  InvalidHeader, and so is a frame that carries it (FLG \<open>0x64\<close>, BD \<open>0x71\<close>).
\<close>

theorem validateStreamDescriptor_reserved_witness:
  "reserved3 (bd (lz4mtInitStreamDescriptor
       \<lparr>bd := \<lparr>reserved3 = 1, blockMaximumSize = 7, reserved2 = 0\<rparr>\<rparr>)) \<noteq> 0
   \<and> validateStreamDescriptor (lz4mtInitStreamDescriptor
       \<lparr>bd := \<lparr>reserved3 = 1, blockMaximumSize = 7, reserved2 = 0\<rparr>\<rparr>)
     = LZ4MT_RESULT_INVALID_HEADER
   \<and> map_option (\<lambda>(r, c, d). (r, writeCtx c))
        (lz4mtDecompress no_tasks
           (mem_context store_compress store_decompress LZ4MT_MODE_SEQUENTIAL
              (storeU32 LZ4S_MAGICNUMBER @ [0x64, 0x71] @ [1, 2, 3]))
           lz4mtInitStreamDescriptor)
     = Some (LZ4MT_RESULT_INVALID_HEADER, [])"
proof -
  let ?sd = "lz4mtInitStreamDescriptor
       \<lparr>bd := \<lparr>reserved3 = 1, blockMaximumSize = 7, reserved2 = 0\<rparr>\<rparr>"
  have h: "reserved3 (bd ?sd) \<noteq> 0" by simp
  then have "reserved1 (flg ?sd) \<noteq> 0 \<or> reserved2 (bd ?sd) \<noteq> 0 \<or> reserved3 (bd ?sd) \<noteq> 0"
    by simp
  note t = validateStreamDescriptor_reserved[OF this]
  from conjunct1[OF conjunct2[OF conjunct2[OF conjunct2[OF t]]]]
  have r: "validateStreamDescriptor ?sd = LZ4MT_RESULT_INVALID_HEADER"
    by (simp add: lz4mtInitStreamDescriptor_def)
  have fb: "charToFlg 0x64 = flg ?sd \<and> charToBc 0x71 = bd ?sd"
    by (simp add: charToFlg_def charToBc_def lz4mtInitStreamDescriptor_def)
  note d = conjunct2[OF conjunct2[OF conjunct2[OF conjunct2[OF conjunct2[OF conjunct2[OF
             conjunct2[OF conjunct2[OF t]]]]]]]]
  from d[rule_format, OF fb, where tk = no_tasks and cmp = store_compress
      and dec = store_decompress and m = LZ4MT_MODE_SEQUENTIAL
      and ?sd0.0 = lz4mtInitStreamDescriptor and rest = "[1, 2, 3]"]
  have "map_option (\<lambda>(r, c, d). (r, writeCtx c))
        (lz4mtDecompress no_tasks
           (mem_context store_compress store_decompress LZ4MT_MODE_SEQUENTIAL
              (storeU32 LZ4S_MAGICNUMBER @ [0x64, 0x71] @ [1, 2, 3]))
           lz4mtInitStreamDescriptor)
     = Some (LZ4MT_RESULT_INVALID_HEADER, [])"
    by (simp only: r)
  with h r show ?thesis by blast
qed

text \<open>
  The claim as stated fails: with reserved1 set and version 0 the version check comes
  first and the code is InvalidVersion.
\<close>

theorem validateStreamDescriptor_reserved_counterexample:
  "reserved1 (flg (lz4mtInitStreamDescriptor
       \<lparr>flg := \<lparr>presetDictionary = 0, reserved1 = 1, streamChecksum = 1, streamSize = 0,
                 blockChecksum = 0, blockIndependance = 1, versionNumber = 0\<rparr>\<rparr>)) \<noteq> 0
   \<and> validateStreamDescriptor (lz4mtInitStreamDescriptor
       \<lparr>flg := \<lparr>presetDictionary = 0, reserved1 = 1, streamChecksum = 1, streamSize = 0,
                 blockChecksum = 0, blockIndependance = 1, versionNumber = 0\<rparr>\<rparr>)
     = LZ4MT_RESULT_INVALID_VERSION
   \<and> LZ4MT_RESULT_INVALID_VERSION \<noteq> LZ4MT_RESULT_INVALID_HEADER"
  by (simp add: lz4mtInitStreamDescriptor_def validateStreamDescriptor_def)

subsection \<open>Calls entered with an error recorded\<close>

lemma compress_loop_error_mem:
  assumes "mem_io ctx" "error ctx" "0 < B"
  shows "lz4mtCompress_loop B c s ctx xxh =
     Some (ctx_skip ctx (length (remaining (readCtx ctx))),
           if s then xxh\<lparr>xxh_input := xxh_input xxh @ remaining (readCtx ctx)\<rparr> else xxh)"
  using assms
proof (induction "length (remaining (readCtx ctx))" arbitrary: ctx xxh rule: less_induct)
  case less
  let ?S = "remaining (readCtx ctx)"
  from less(2) have rd: "read ctx = mem_read" and eof: "readEof ctx = mem_readEof"
    by (simp_all add: mem_io_def)
  show ?case
  proof (cases "?S = []")
    case True
    then have "ctx_skip ctx 0 = ctx" by (simp add: ctx_skip_def)
    with True show ?thesis
      by (subst lz4mtCompress_loop.simps) (simp add: ctx_readEof_mem[OF eof])
  next
    case False
    let ?src = "take (nat B) ?S"
    let ?ctx1 = "ctx_skip ctx (nat B)"
    let ?xxh1 = "if s then xxh\<lparr>xxh_input := xxh_input xxh @ ?src\<rparr> else xxh"
    have e1: "error ?ctx1" using less(3) by simp
    have lt: "length (remaining (readCtx ?ctx1)) < length ?S" using False less(4) by simp
    have IH: "lz4mtCompress_loop B c s ?ctx1 ?xxh1 =
       Some (ctx_skip ?ctx1 (length (remaining (readCtx ?ctx1))),
             if s then ?xxh1\<lparr>xxh_input := xxh_input ?xxh1 @ remaining (readCtx ?ctx1)\<rparr>
             else ?xxh1)"
      by (rule less(1)[OF lt]) (use less(2,3,4) in simp_all)
    have sk: "ctx_skip ctx (nat B + (length ?S - nat B)) = ctx_skip ctx (length ?S)"
      by (cases "nat B \<le> length ?S") (simp_all add: ctx_skip_all[of ctx "nat B"])
    have step: "lz4mtCompress_loop B c s ctx xxh = lz4mtCompress_loop B c s ?ctx1 ?xxh1"
      by (subst lz4mtCompress_loop.simps)
        (simp add: ctx_readEof_mem[OF eof] False ctx_read_mem[OF rd] compress_f_inert[OF e1]
            Xxh32_update_def Let_def take_min_length)
    have app: "?src @ drop (nat B) ?S = ?S" by simp
    show ?thesis
      unfolding step IH by (simp add: sk app del: append_take_drop_id)
  qed
qed

lemma lz4mtCompress_error_mem:
  assumes io: "mem_io ctx" and e: "error ctx"
    and valid: "validateStreamDescriptor sd = LZ4MT_RESULT_OK"
    and asrt: "streamSize (flg sd) = 0 \<or> streamSizeValue sd \<noteq> 0"
  shows "lz4mtCompress ctx sd =
     Some (LZ4MT_RESULT_CANNOT_WRITE_EOS,
           ctx_emit (ctx_skip ctx (length (remaining (readCtx ctx)))) (lz4mtCompress_header sd))"
proof -
  let ?S = "remaining (readCtx ctx)"
  let ?B = "getBlocksize (blockMaximumSize (bd sd))"
  let ?c = "if blockChecksum (flg sd) \<noteq> 0 then 4 else 0 :: int"
  let ?s = "0 \<noteq> streamChecksum (flg sd)"
  let ?d = "lz4mtCompress_header sd"
  let ?ctx1 = "ctx_emit ctx ?d"
  from io have wr: "write' ctx = mem_write" by (simp add: mem_io_def)
  have B: "0 < ?B" using getBlocksize_range(1) validate_OK_fields(5,6)[OF valid] by simp
  have hw: "ctx_write ctx ?d (int (length ?d)) = (int (length ?d), ?ctx1)"
    by (simp add: ctx_write_mem[OF wr])
  have loop: "lz4mtCompress_loop ?B ?c ?s ?ctx1 (Xxh32_init LZ4S_CHECKSUM_SEED) =
     Some (ctx_skip ?ctx1 (length (remaining (readCtx ?ctx1))),
           if ?s then (Xxh32_init LZ4S_CHECKSUM_SEED)
              \<lparr>xxh_input := xxh_input (Xxh32_init LZ4S_CHECKSUM_SEED) @ remaining (readCtx ?ctx1)\<rparr>
           else Xxh32_init LZ4S_CHECKSUM_SEED)"
    by (rule compress_loop_error_mem) (use io e B in simp_all)
  have e2: "result (ctx_emit (ctx_skip ctx (length ?S)) ?d) \<noteq> LZ4MT_RESULT_OK"
    using e by (simp add: error_def)
  have w: "writeU32 (ctx_emit (ctx_skip ctx (length ?S)) ?d) LZ4S_EOS
      = (False, ctx_emit (ctx_skip ctx (length ?S)) ?d)"
    using helpers_inert[OF e2] by blast
  have "lz4mtCompress ctx sd =
     Option.bind (lz4mtCompress_loop ?B ?c ?s ?ctx1 (Xxh32_init LZ4S_CHECKSUM_SEED))
       (\<lambda>(ctx2, xxhStream).
           let (ok, ctx3) = writeU32 ctx2 LZ4S_EOS
           in if \<not> ok then Some (LZ4MT_RESULT_CANNOT_WRITE_EOS, ctx3)
              else if ?s
              then (let (ok', ctx4) = writeU32 ctx3 (Xxh32_digest xxhStream)
                    in if \<not> ok'
                       then Some (LZ4MT_RESULT_CANNOT_WRITE_STREAM_CHECKSUM, ctx4)
                       else Some (LZ4MT_RESULT_OK, ctx4))
              else Some (LZ4MT_RESULT_OK, ctx3))"
  proof -
    have na: "\<not> (streamSize (flg sd) \<noteq> 0 \<and> streamSizeValue sd = 0)" using asrt by auto
    show ?thesis
      unfolding lz4mtCompress_def using valid
      by (simp add: Let_def hw na split del: if_split cong: if_cong)
  qed
  also have "\<dots> = Some (LZ4MT_RESULT_CANNOT_WRITE_EOS,
           ctx_emit (ctx_skip ctx (length ?S)) ?d)"
    unfolding loop by (simp add: w)
  finally show ?thesis .
qed

lemma lz4mtDecompress_error:
  assumes "result ctx \<noteq> LZ4MT_RESULT_OK" "result ctx \<noteq> LZ4MT_RESULT_ERROR"
  shows "lz4mtDecompress tk ctx sd = Some (result ctx, ctx, sd)"
proof -
  have e: "error ctx" using assms(1) by (auto simp: error_def)
  show ?thesis
    by (simp add: lz4mtDecompress_def setResult_specific[OF assms] decompress_frames_done e)
qed

text \<open>
  C10, as the code has it. In a context whose result is not OK the three helpers are
  inert: \<open>readU32\<close> returns 0, \<open>writeU32\<close> and \<open>writeBin\<close> return false, and each returns
  the context as it was, whatever the callbacks are, so no callback ran. What follows
  for the sink is this, and not more:

  \<^item> the compress worker and the decompress worker leave the context as it is;
  \<^item> the producer loop of \<open>lz4mtCompress\<close>, when it returns, has left the sink and the
    result as they were;
  \<^item> \<open>lz4mtDecompress\<close> entered with a specific error code stored returns that code at
    once and leaves the context as it is;
  \<^item> \<open>lz4mtCompress\<close> entered with an error stored and a valid descriptor still writes
    the frame header, through the write callback itself (line 358), and nothing else:
    on the in-memory callbacks it returns CannotWriteEos with exactly the header
    appended to the sink.
\<close>

theorem io_helpers_inert:
  assumes "result ctx \<noteq> LZ4MT_RESULT_OK"
  shows "readU32 ctx = (0, ctx) \<and> writeU32 ctx v = (False, ctx)
     \<and> writeBin ctx p n = (False, ctx)
     \<and> lz4mtCompress_f c ctx src = ctx
     \<and> lz4mtDecompress_f B c s ctx quit xxh src inc bc = (LZ4MT_RESULT_OK, ctx, quit, xxh)
     \<and> (\<forall>ctx' xxh'. lz4mtCompress_loop B c s ctx xxh = Some (ctx', xxh') \<longrightarrow>
           writeCtx ctx' = writeCtx ctx \<and> result ctx' = result ctx)
     \<and> (result ctx \<noteq> LZ4MT_RESULT_ERROR \<longrightarrow>
           lz4mtDecompress tk ctx sd = Some (result ctx, ctx, sd))
     \<and> (\<forall>mctx D. mem_io mctx \<and> result mctx \<noteq> LZ4MT_RESULT_OK
           \<and> validateStreamDescriptor D = LZ4MT_RESULT_OK
           \<and> (streamSize (flg D) = 0 \<or> streamSizeValue D \<noteq> 0) \<longrightarrow>
           (\<exists>ctx'. lz4mtCompress mctx D = Some (LZ4MT_RESULT_CANNOT_WRITE_EOS, ctx')
              \<and> writeCtx ctx' = writeCtx mctx @ lz4mtCompress_header D
              \<and> result ctx' = result mctx))"
proof -
  have e: "error ctx" using assms by (auto simp: error_def)
  have loop: "\<forall>ctx' xxh'. lz4mtCompress_loop B c s ctx xxh = Some (ctx', xxh') \<longrightarrow>
           writeCtx ctx' = writeCtx ctx \<and> result ctx' = result ctx"
  proof (intro allI impI)
    fix ctx' xxh'
    assume "lz4mtCompress_loop B c s ctx xxh = Some (ctx', xxh')"
    from compress_loop_inert[OF this] e
    show "writeCtx ctx' = writeCtx ctx \<and> result ctx' = result ctx" by simp
  qed
  have h1: "readU32 ctx = (0, ctx)" and h2: "writeU32 ctx v = (False, ctx)"
    and h3: "writeBin ctx p n = (False, ctx)"
    using helpers_inert[OF assms] by blast+
  have h4: "lz4mtCompress_f c ctx src = ctx" by (rule compress_f_inert[OF e])
  have h5: "lz4mtDecompress_f B c s ctx quit xxh src inc bc = (LZ4MT_RESULT_OK, ctx, quit, xxh)"
    by (rule decompress_f_inert) (simp add: e)
  have h6: "result ctx \<noteq> LZ4MT_RESULT_ERROR \<longrightarrow>
           lz4mtDecompress tk ctx sd = Some (result ctx, ctx, sd)"
    using lz4mtDecompress_error[OF assms] by blast
  have h7: "\<forall>mctx D. mem_io mctx \<and> result mctx \<noteq> LZ4MT_RESULT_OK
           \<and> validateStreamDescriptor D = LZ4MT_RESULT_OK
           \<and> (streamSize (flg D) = 0 \<or> streamSizeValue D \<noteq> 0) \<longrightarrow>
           (\<exists>ctx'. lz4mtCompress mctx D = Some (LZ4MT_RESULT_CANNOT_WRITE_EOS, ctx')
              \<and> writeCtx ctx' = writeCtx mctx @ lz4mtCompress_header D
              \<and> result ctx' = result mctx)"
  proof (intro allI impI)
    fix mctx :: "(mem_reader, byte list) Lz4MtContext" and D
    assume a: "mem_io mctx \<and> result mctx \<noteq> LZ4MT_RESULT_OK
           \<and> validateStreamDescriptor D = LZ4MT_RESULT_OK
           \<and> (streamSize (flg D) = 0 \<or> streamSizeValue D \<noteq> 0)"
    then have io: "mem_io mctx" and em: "error mctx"
      and vd: "validateStreamDescriptor D = LZ4MT_RESULT_OK"
      and as: "streamSize (flg D) = 0 \<or> streamSizeValue D \<noteq> 0"
      by (auto simp: error_def)
    show "\<exists>ctx'. lz4mtCompress mctx D = Some (LZ4MT_RESULT_CANNOT_WRITE_EOS, ctx')
              \<and> writeCtx ctx' = writeCtx mctx @ lz4mtCompress_header D
              \<and> result ctx' = result mctx"
      unfolding lz4mtCompress_error_mem[OF io em vd as] by simp
  qed
  show ?thesis
    by (intro conjI) (rule h1 h2 h3 h4 h5 loop h6 h7)+
qed

text \<open>
  A context with the transient error stored: the helpers do nothing. A context with
  CannotReadBlockData stored: \<open>lz4mtDecompress\<close> returns at once.
\<close>

theorem io_helpers_inert_witness:
  "readU32 ((mem_context store_compress store_decompress LZ4MT_MODE_SEQUENTIAL [1, 2, 3, 4])
              \<lparr>result := LZ4MT_RESULT_ERROR\<rparr>)
     = (0, (mem_context store_compress store_decompress LZ4MT_MODE_SEQUENTIAL [1, 2, 3, 4])
              \<lparr>result := LZ4MT_RESULT_ERROR\<rparr>)
   \<and> writeBin ((mem_context store_compress store_decompress LZ4MT_MODE_SEQUENTIAL [1, 2, 3, 4])
              \<lparr>result := LZ4MT_RESULT_ERROR\<rparr>) [5, 6] 2
     = (False, (mem_context store_compress store_decompress LZ4MT_MODE_SEQUENTIAL [1, 2, 3, 4])
              \<lparr>result := LZ4MT_RESULT_ERROR\<rparr>)
   \<and> lz4mtDecompress no_tasks
        ((mem_context store_compress store_decompress LZ4MT_MODE_SEQUENTIAL [1, 2, 3, 4])
              \<lparr>result := LZ4MT_RESULT_CANNOT_READ_BLOCK_DATA\<rparr>) lz4mtInitStreamDescriptor
     = Some (LZ4MT_RESULT_CANNOT_READ_BLOCK_DATA,
             (mem_context store_compress store_decompress LZ4MT_MODE_SEQUENTIAL [1, 2, 3, 4])
              \<lparr>result := LZ4MT_RESULT_CANNOT_READ_BLOCK_DATA\<rparr>, lz4mtInitStreamDescriptor)"
  using io_helpers_inert
    [of "(mem_context store_compress store_decompress LZ4MT_MODE_SEQUENTIAL [1, 2, 3, 4])
           \<lparr>result := LZ4MT_RESULT_ERROR\<rparr>" 0 "[5, 6]" 2]
    io_helpers_inert
    [of "(mem_context store_compress store_decompress LZ4MT_MODE_SEQUENTIAL [1, 2, 3, 4])
           \<lparr>result := LZ4MT_RESULT_CANNOT_READ_BLOCK_DATA\<rparr>" _ _ _ _ _ _ _ _ _ _ _
           no_tasks lz4mtInitStreamDescriptor]
  by (simp add: mem_context_def)

lemma init_header_bytes:
  "lz4mtCompress_header lz4mtInitStreamDescriptor = [4, 34, 77, 24, 100, 112, 185]"
  by (simp add: lz4mtCompress_header_def lz4mtInitStreamDescriptor_def LZ4S_BLOCKSIZEID_DEFAULT_def
      flgToChar_def bdToChar_def storeU32_def LZ4S_MAGICNUMBER_def getCheckBits_FromXXH_def
      XXH32_def XXH32_avalanche_def XXH_rotl32_def XXH_readLE32_def XXH32_round_def
      PRIME32_1_def PRIME32_2_def PRIME32_3_def PRIME32_4_def PRIME32_5_def LZ4S_CHECKSUM_SEED_def)

text \<open>
  The claim as stated fails in its last part: \<open>lz4mtCompress\<close> entered with
  CannotReadBlockData stored (the sink empty, three bytes of input) writes the seven
  bytes of the frame header to the sink, although the error was recorded before.
\<close>

theorem io_helpers_inert_counterexample:
  "result ((mem_context store_compress store_decompress LZ4MT_MODE_SEQUENTIAL [1, 2, 3])
             \<lparr>result := LZ4MT_RESULT_CANNOT_READ_BLOCK_DATA\<rparr>) \<noteq> LZ4MT_RESULT_OK
   \<and> writeCtx ((mem_context store_compress store_decompress LZ4MT_MODE_SEQUENTIAL [1, 2, 3])
             \<lparr>result := LZ4MT_RESULT_CANNOT_READ_BLOCK_DATA\<rparr>) = []
   \<and> map_option (\<lambda>(r, c). (r, writeCtx c))
       (lz4mtCompress
          ((mem_context store_compress store_decompress LZ4MT_MODE_SEQUENTIAL [1, 2, 3])
             \<lparr>result := LZ4MT_RESULT_CANNOT_READ_BLOCK_DATA\<rparr>)
          lz4mtInitStreamDescriptor)
     = Some (LZ4MT_RESULT_CANNOT_WRITE_EOS, [4, 34, 77, 24, 100, 112, 185])"
proof -
  let ?ctx = "(mem_context store_compress store_decompress LZ4MT_MODE_SEQUENTIAL [1, 2, 3])
             \<lparr>result := LZ4MT_RESULT_CANNOT_READ_BLOCK_DATA\<rparr>"
  have io: "mem_io ?ctx" and e: "error ?ctx" by simp_all
  have v: "validateStreamDescriptor lz4mtInitStreamDescriptor = LZ4MT_RESULT_OK"
    by (simp add: validateStreamDescriptor_def lz4mtInitStreamDescriptor_def
        LZ4S_BLOCKSIZEID_DEFAULT_def)
  have a: "streamSize (flg lz4mtInitStreamDescriptor) = 0
      \<or> streamSizeValue lz4mtInitStreamDescriptor \<noteq> 0"
    by (simp add: lz4mtInitStreamDescriptor_def)
  show ?thesis
    unfolding lz4mtCompress_error_mem[OF io e v a]
    by (simp add: init_header_bytes mem_context_def)
qed

subsection \<open>Round trip\<close>

lemma codec_inverse_store:
  assumes "B < 2 ^ 31"
  shows "codec_inverse store_compress store_decompress B"
  using assms by (auto simp add: codec_inverse_def compress_contract_def store_compress_def)

lemma codec_inverse_rle:
  assumes "B < 2 ^ 31"
  shows "codec_inverse rle_compress rle_decompress B"
proof -
  have "compress_contract rle_compress src
      \<and> (0 < fst (rle_compress src (int (length src))) \<longrightarrow>
           fst (rle_decompress (take (nat (fst (rle_compress src (int (length src)))))
                      (snd (rle_compress src (int (length src))))) B) = int (length src)
           \<and> take (length src)
                (snd (rle_decompress (take (nat (fst (rle_compress src (int (length src)))))
                            (snd (rle_compress src (int (length src))))) B)) = src)"
    if l: "int (length src) \<le> B" for src
  proof (cases "3 \<le> length src \<and> length src \<le> 255 \<and> src = replicate (length src) (hd src)")
    case False
    then show ?thesis using l assms
      by (auto simp add: compress_contract_def rle_compress_def)
  next
    case True
    then have u: "unat (of_nat (length src) :: byte) = length src"
      by (simp add: unat_of_nat take_bit_nat_eq_self)
    have c: "rle_compress src (int (length src))
        = (2, [of_nat (length src), hd src] @ replicate (length src - 2) 0)"
      using True by (simp add: rle_compress_def)
    have t: "take (nat 2) ([of_nat (length src), hd src] @ replicate (length src - 2) 0)
        = [of_nat (length src), hd src :: byte]" by (simp add: numeral_2_eq_2)
    have d: "rle_decompress [of_nat (length src), hd src] B
        = (int (length src), replicate (length src) (hd src)
             @ replicate (nat B - length src) 0)"
      using l by (simp add: rle_decompress_def u)
    have r: "replicate (length src) (hd src) = src" using True by simp
    have l2: "Suc (Suc (length src - 2)) = length src" using True by linarith
    show ?thesis
      using True l assms
      by (simp add: c t d compress_contract_def r l2)
  qed
  then show ?thesis unfolding codec_inverse_def by blast
qed

text \<open>
  C1, as the code has it. Let \<open>D\<close> be accepted by \<open>validateStreamDescriptor\<close>, with
  flag fields that are 0 or 1 and, when the stream-size flag is set, a nonzero stream
  size (the assertion of line 345); let the callbacks be inverse block codecs. Then
  \<open>lz4mtCompress\<close> on a fresh in-memory context with input \<open>S\<close> returns OK, and
  \<open>lz4mtDecompress\<close> in sequential mode on a fresh in-memory context reading what was
  written returns OK, writes exactly \<open>S\<close> and stores the flags and the block
  descriptor of \<open>D\<close>.
\<close>

theorem lz4mt_roundtrip:
  assumes v: "validateStreamDescriptor D = LZ4MT_RESULT_OK"
    and fb: "flags_are_bits D"
    and asrt: "streamSize (flg D) = 0 \<or> streamSizeValue D \<noteq> 0"
    and ci: "codec_inverse cmp dec (getBlocksize (blockMaximumSize (bd D)))"
    and seq: "m' AND LZ4MT_MODE_SEQUENTIAL \<noteq> 0"
  shows "\<exists>ctx1 ctx2 sd'.
      lz4mtCompress (mem_context cmp dec m S) D = Some (LZ4MT_RESULT_OK, ctx1)
    \<and> lz4mtDecompress tk (mem_context cmp dec m' (writeCtx ctx1)) sd0
        = Some (LZ4MT_RESULT_OK, ctx2, sd')
    \<and> writeCtx ctx2 = S \<and> flg sd' = flg D \<and> bd sd' = bd D"
proof -
  let ?B = "getBlocksize (blockMaximumSize (bd D))"
  let ?c = "if blockChecksum (flg D) \<noteq> 0 then 4 else 0 :: int"
  let ?ctx0 = "mem_context cmp dec m S"
  let ?bs = "map (compressed_block cmp) (blocks_of (nat ?B) S)"
  have B: "0 < ?B" using getBlocksize_range(1) validate_OK_fields(5,6)[OF v] by simp
  have cc: "\<forall>src \<in> set (blocks_of (nat ?B) (remaining (readCtx ?ctx0))).
      compress_contract (compress ?ctx0) src"
  proof
    fix src assume "src \<in> set (blocks_of (nat ?B) (remaining (readCtx ?ctx0)))"
    then have "src \<in> set (blocks_of (nat ?B) S)" by simp
    from blocks_of_length_le[OF this] B have "int (length src) \<le> ?B" by linarith
    with ci show "compress_contract (compress ?ctx0) src"
      unfolding codec_inverse_def by simp
  qed
  have c1: "lz4mtCompress ?ctx0 D = Some (LZ4MT_RESULT_OK,
      ctx_emit (ctx_skip ?ctx0 (length (remaining (readCtx ?ctx0))))
        (frame_bytes (compress ?ctx0) D (remaining (readCtx ?ctx0))))"
    by (rule lz4mtCompress_mem[OF _ _ v asrt cc]) simp_all
  define ctx1 where "ctx1 = ctx_emit (ctx_skip ?ctx0 (length (remaining (readCtx ?ctx0))))
        (frame_bytes (compress ?ctx0) D (remaining (readCtx ?ctx0)))"
  have w1: "writeCtx ctx1 = frame_bytes cmp D S" by (simp add: ctx1_def)
  let ?dctx = "mem_context cmp dec m' (writeCtx ctx1)"
  have rem: "remaining (readCtx ?dctx) = lz4mtCompress_header D
        @ concat (map (\<lambda>b. block_record ?c (fst b) (snd b)) ?bs)
        @ storeU32 LZ4S_EOS
        @ (if streamChecksum (flg D) \<noteq> 0 then storeU32 (XXH32 S LZ4S_CHECKSUM_SEED) else [])"
    by (simp add: w1 frame_bytes_def compressed_blocks_wire)
  have seq': "mode ?dctx AND LZ4MT_MODE_SEQUENTIAL \<noteq> 0" using seq by simp
  note cb = compressed_blocks_content[OF ci B, of S]
  have bo: "\<forall>b \<in> set ?bs. block_ok (decompress ?dctx) ?B b" using cb(1) by simp
  have out: "S = concat (map (block_content (decompress ?dctx) ?B) ?bs)" using cb(2) by simp
  from decompress_frame_of_descriptor[OF _ _ seq' v fb rem bo out, of tk sd0]
  obtain sd2 where fr: "lz4mtDecompress_frames tk (?dctx, sd0, False) =
      Some (ctx_emit (ctx_skip ?dctx (length (remaining (readCtx ?dctx)))) S, sd2)"
    and sd2: "flg sd2 = flg D" "bd sd2 = bd D"
    by auto
  have d1: "lz4mtDecompress tk ?dctx sd0 = Some (LZ4MT_RESULT_OK,
      ctx_emit (ctx_skip ?dctx (length (remaining (readCtx ?dctx)))) S, sd2)"
    by (simp add: lz4mtDecompress_def setResult_OK_id fr)
  show ?thesis
    using c1 d1 sd2 unfolding ctx1_def[symmetric]
    by (intro exI[of _ ctx1] exI[of _ "ctx_emit (ctx_skip ?dctx (length (remaining (readCtx ?dctx)))) S"]
        exI[of _ sd2]) simp
qed

theorem lz4mt_roundtrip_witness:
  "\<exists>ctx1 ctx2 sd'.
      lz4mtCompress (mem_context rle_compress rle_decompress LZ4MT_MODE_SEQUENTIAL (replicate 10 65))
        lz4mtInitStreamDescriptor = Some (LZ4MT_RESULT_OK, ctx1)
    \<and> lz4mtDecompress no_tasks
        (mem_context rle_compress rle_decompress LZ4MT_MODE_SEQUENTIAL (writeCtx ctx1))
        lz4mtInitStreamDescriptor = Some (LZ4MT_RESULT_OK, ctx2, sd')
    \<and> writeCtx ctx2 = replicate 10 65
    \<and> flg sd' = flg lz4mtInitStreamDescriptor \<and> bd sd' = bd lz4mtInitStreamDescriptor"
proof -
  have v: "validateStreamDescriptor lz4mtInitStreamDescriptor = LZ4MT_RESULT_OK"
    by (simp add: validateStreamDescriptor_def lz4mtInitStreamDescriptor_def
        LZ4S_BLOCKSIZEID_DEFAULT_def)
  have fb: "flags_are_bits lz4mtInitStreamDescriptor"
    by (simp add: flags_are_bits_def lz4mtInitStreamDescriptor_def)
  have a: "streamSize (flg lz4mtInitStreamDescriptor) = 0
      \<or> streamSizeValue lz4mtInitStreamDescriptor \<noteq> 0"
    by (simp add: lz4mtInitStreamDescriptor_def)
  have ci: "codec_inverse rle_compress rle_decompress
      (getBlocksize (blockMaximumSize (bd lz4mtInitStreamDescriptor)))"
    by (rule codec_inverse_rle)
      (simp add: lz4mtInitStreamDescriptor_def LZ4S_BLOCKSIZEID_DEFAULT_def getBlocksize_def)
  have seq: "LZ4MT_MODE_SEQUENTIAL AND LZ4MT_MODE_SEQUENTIAL \<noteq> 0"
    by (simp add: LZ4MT_MODE_SEQUENTIAL_def)
  show ?thesis
    by (rule lz4mt_roundtrip[OF v fb a ci seq])
qed

lemmas xxh_eval = XXH32_def XXH32_avalanche_def XXH_rotl32_def XXH_readLE32_def XXH32_round_def
  PRIME32_1_def PRIME32_2_def PRIME32_3_def PRIME32_4_def PRIME32_5_def LZ4S_CHECKSUM_SEED_def

lemma compress_contract_store: "length src < 2 ^ 31 \<Longrightarrow> compress_contract store_compress src"
  by (simp add: compress_contract_def store_compress_def)

lemma roundtrip_counterexample_frame: "frame_bytes store_compress
       (lz4mtInitStreamDescriptor
          \<lparr>flg := \<lparr>presetDictionary = 0, reserved1 = 0, streamChecksum = 1, streamSize = 0,
                    blockChecksum = 0, blockIndependance = 2, versionNumber = 1\<rparr>\<rparr>) [1, 2, 3]
   = [4, 34, 77, 24, 68, 112, 29, 3, 0, 0, 128, 1, 2, 3, 0, 0, 0, 0, 196, 120, 156, 245]"
  by (simp add: frame_bytes_def lz4mtInitStreamDescriptor_def LZ4S_BLOCKSIZEID_DEFAULT_def
      lz4mtCompress_header_def flgToChar_def bdToChar_def getBlocksize_def blocks_of_step
      compressed_record_def compressed_block_def store_compress_def block_record_def
      storeU32_def incompMask_def LZ4S_EOS_def LZ4S_MAGICNUMBER_def getCheckBits_FromXXH_def
      xxh_eval)

lemma roundtrip_counterexample_decode: "map_option (\<lambda>(r, c, sd). (r, writeCtx c))
       (lz4mtDecompress tk
          (mem_context store_compress store_decompress m
             [4, 34, 77, 24, 68, 112, 29, 3, 0, 0, 128, 1, 2, 3, 0, 0, 0, 0, 196, 120, 156, 245])
          lz4mtInitStreamDescriptor)
     = Some (LZ4MT_RESULT_BLOCK_DEPENDENCE_IS_NOT_SUPPORTED_YET, [])"
  unfolding lz4mtDecompress_def
  apply (subst lz4mtDecompress_frames.simps)
  apply (simp add: setResult_def mem_context_def error_def ctx_readEof_def mem_readEof_def
      readU32_def ctx_read_def mem_read_def loadU32_def isSkippableMagicNumber_def
      LZ4S_MAGICNUMBER_def LZ4S_MAGICNUMBER_SKIPPABLE_MIN_def LZ4S_MAGICNUMBER_SKIPPABLE_MAX_def
      lz4mtDecompress_header_def charToFlg_def charToBc_def validateStreamDescriptor_def)
  done

text \<open>
  The claim as stated fails for a descriptor that \<open>validateStreamDescriptor\<close> accepts
  but whose flag is not 0 or 1: with \<open>blockIndependance = 2\<close> the validation passes
  (line 171 tests for zero), \<open>flgToChar\<close> packs \<open>2 & 1 = 0\<close> into bit 5, and the decoder
  rejects the frame \<open>lz4mtCompress\<close> wrote as block dependent, writing nothing.
\<close>

theorem lz4mt_roundtrip_counterexample:
  "validateStreamDescriptor
       (lz4mtInitStreamDescriptor
          \<lparr>flg := \<lparr>presetDictionary = 0, reserved1 = 0, streamChecksum = 1, streamSize = 0,
                    blockChecksum = 0, blockIndependance = 2, versionNumber = 1\<rparr>\<rparr>)
     = LZ4MT_RESULT_OK
   \<and> map_option (\<lambda>(r, c). (r, writeCtx c))
       (lz4mtCompress (mem_context store_compress store_decompress LZ4MT_MODE_SEQUENTIAL [1, 2, 3])
          (lz4mtInitStreamDescriptor
             \<lparr>flg := \<lparr>presetDictionary = 0, reserved1 = 0, streamChecksum = 1, streamSize = 0,
                       blockChecksum = 0, blockIndependance = 2, versionNumber = 1\<rparr>\<rparr>))
     = Some (LZ4MT_RESULT_OK,
         [4, 34, 77, 24, 68, 112, 29, 3, 0, 0, 128, 1, 2, 3, 0, 0, 0, 0, 196, 120, 156, 245])
   \<and> map_option (\<lambda>(r, c, sd). (r, writeCtx c))
       (lz4mtDecompress no_tasks
          (mem_context store_compress store_decompress LZ4MT_MODE_SEQUENTIAL
             [4, 34, 77, 24, 68, 112, 29, 3, 0, 0, 128, 1, 2, 3, 0, 0, 0, 0, 196, 120, 156, 245])
          lz4mtInitStreamDescriptor)
     = Some (LZ4MT_RESULT_BLOCK_DEPENDENCE_IS_NOT_SUPPORTED_YET, [])"
proof -
  let ?D = "lz4mtInitStreamDescriptor
          \<lparr>flg := \<lparr>presetDictionary = 0, reserved1 = 0, streamChecksum = 1, streamSize = 0,
                    blockChecksum = 0, blockIndependance = 2, versionNumber = 1\<rparr>\<rparr>"
  let ?ctx = "mem_context store_compress store_decompress LZ4MT_MODE_SEQUENTIAL [1, 2, 3]"
  have v: "validateStreamDescriptor ?D = LZ4MT_RESULT_OK"
    by (simp add: validateStreamDescriptor_def lz4mtInitStreamDescriptor_def
        LZ4S_BLOCKSIZEID_DEFAULT_def)
  have a: "streamSize (flg ?D) = 0 \<or> streamSizeValue ?D \<noteq> 0" by simp
  have B: "getBlocksize (blockMaximumSize (bd lz4mtInitStreamDescriptor)) = 4194304"
    by (simp add: lz4mtInitStreamDescriptor_def LZ4S_BLOCKSIZEID_DEFAULT_def getBlocksize_def)
  have cc: "\<forall>src \<in> set (blocks_of (nat (getBlocksize (blockMaximumSize (bd ?D))))
                (remaining (readCtx ?ctx))). compress_contract (compress ?ctx) src"
    by (simp add: B blocks_of_step compress_contract_store)
  have "lz4mtCompress ?ctx ?D = Some (LZ4MT_RESULT_OK,
      ctx_emit (ctx_skip ?ctx (length (remaining (readCtx ?ctx))))
        (frame_bytes (compress ?ctx) ?D (remaining (readCtx ?ctx))))"
    by (rule lz4mtCompress_mem[OF _ _ v a cc]) simp_all
  then have c: "map_option (\<lambda>(r, c). (r, writeCtx c)) (lz4mtCompress ?ctx ?D)
      = Some (LZ4MT_RESULT_OK,
         [4, 34, 77, 24, 68, 112, 29, 3, 0, 0, 128, 1, 2, 3, 0, 0, 0, 0, 196, 120, 156, 245])"
    by (simp add: roundtrip_counterexample_frame)
  show ?thesis
    by (intro conjI) (rule v c roundtrip_counterexample_decode)+
qed

subsection \<open>The compress worker and the block-size word\<close>

lemma compressed_block_cases:
  assumes "cmp src (int (length src)) = (cmpSize, dst)"
  shows "compressed_block cmp src
     = (cmpSize \<le> 0, if cmpSize \<le> 0 then src else take (nat cmpSize) dst)"
  using assms by (simp add: compressed_block_def)

lemma compressed_payload_length:
  assumes cc: "compress_contract cmp src" and cd: "cmp src (int (length src)) = (cmpSize, dst)"
  shows "length (if cmpSize \<le> 0 then src else take (nat cmpSize) dst)
       = (if cmpSize \<le> 0 then length src else nat cmpSize)"
    and "length (if cmpSize \<le> 0 then src else take (nat cmpSize) dst) < 2 ^ 31"
    and "cmpSize \<le> 0 \<or> (if cmpSize \<le> 0 then src else take (nat cmpSize) dst) \<noteq> []"
proof -
  from cc cd have l: "length src < 2 ^ 31" "length dst = length src" "cmpSize \<le> int (length src)"
    by (simp_all add: compress_contract_def)
  then show "length (if cmpSize \<le> 0 then src else take (nat cmpSize) dst)
       = (if cmpSize \<le> 0 then length src else nat cmpSize)"
    by auto
  with l show "length (if cmpSize \<le> 0 then src else take (nat cmpSize) dst) < 2 ^ 31"
    by auto
  from l show "cmpSize \<le> 0 \<or> (if cmpSize \<le> 0 then src else take (nat cmpSize) dst) \<noteq> []"
    by auto
qed

text \<open>
  C5. The compress worker on a context with no error and the in-memory sink, for a
  block \<open>src\<close> on which the compressor keeps its contract and returns \<open>cmpSize\<close> with
  destination buffer \<open>dst\<close>: it appends the size word, the payload and, with block
  checksums on, the hash of the payload. Bit 31 of the size word is set iff
  \<open>cmpSize \<le> 0\<close>; in that case the payload is \<open>src\<close>, otherwise it is the first
  \<open>cmpSize\<close> bytes of \<open>dst\<close>.
\<close>

theorem compress_f_incompressible_bit:
  assumes wr: "write' ctx = mem_write" and ok: "result ctx = LZ4MT_RESULT_OK"
    and cc: "compress_contract (compress ctx) src"
    and cd: "compress ctx src (int (length src)) = (cmpSize, dst)"
  shows "\<exists>w. writeCtx (lz4mtCompress_f c ctx src)
        = writeCtx ctx @ storeU32 w
          @ (if cmpSize \<le> 0 then src else take (nat cmpSize) dst)
          @ (if c \<noteq> 0
             then storeU32 (XXH32 (if cmpSize \<le> 0 then src else take (nat cmpSize) dst)
                    LZ4S_CHECKSUM_SEED)
             else [])
      \<and> (bit w 31 \<longleftrightarrow> cmpSize \<le> 0)
      \<and> length (if cmpSize \<le> 0 then src else take (nat cmpSize) dst)
          = (if cmpSize \<le> 0 then length src else nat cmpSize)"
proof -
  let ?p = "if cmpSize \<le> 0 then src else take (nat cmpSize) dst"
  let ?w = "(word_of_int (int (length ?p)) :: u32) OR (if cmpSize \<le> 0 then incompMask else 0)"
  have e: "\<not> error ctx" using ok by (simp add: error_def)
  note pl = compressed_payload_length[of "compress ctx" src cmpSize dst, OF cc cd]
  have "writeCtx (lz4mtCompress_f c ctx src) = writeCtx ctx @ block_record c (cmpSize \<le> 0) ?p"
    by (simp add: compress_f_mem[OF wr e cc] compressed_record_def compressed_block_cases[of "compress ctx" src cmpSize dst, OF cd])
  then have "writeCtx (lz4mtCompress_f c ctx src)
        = writeCtx ctx @ storeU32 ?w @ ?p
          @ (if c \<noteq> 0 then storeU32 (XXH32 ?p LZ4S_CHECKSUM_SEED) else [])"
    by (simp only: block_record_def)
  moreover have "bit ?w 31 \<longleftrightarrow> cmpSize \<le> 0"
    by (rule sizeword_decode(3)[OF pl(2) refl])
  ultimately show ?thesis using pl(1) by blast
qed

theorem compress_f_incompressible_bit_witness:
  "\<exists>w. writeCtx (lz4mtCompress_f 4 (mem_context rle_compress rle_decompress 0 []) [7, 7, 7, 7])
        = writeCtx (mem_context rle_compress rle_decompress 0 []) @ storeU32 w
          @ (if (2::int) \<le> 0 then [7, 7, 7, 7] else take (nat 2) [4, 7, 0, 0])
          @ (if (4::int) \<noteq> 0
             then storeU32 (XXH32 (if (2::int) \<le> 0 then [7, 7, 7, 7] else take (nat 2) [4, 7, 0, 0])
                    LZ4S_CHECKSUM_SEED)
             else [])
      \<and> (bit w 31 \<longleftrightarrow> (2::int) \<le> 0)
      \<and> length (if (2::int) \<le> 0 then [7, 7, 7, 7 :: byte] else take (nat 2) [4, 7, 0, 0])
          = (if (2::int) \<le> 0 then length [7, 7, 7, 7 :: byte] else nat 2)"
proof -
  let ?ctx = "mem_context rle_compress rle_decompress 0 []"
  have wr: "write' ?ctx = mem_write" and ok: "result ?ctx = LZ4MT_RESULT_OK"
    by (simp_all add: mem_context_def)
  have cd: "compress ?ctx [7, 7, 7, 7] (int (length [7, 7, 7, 7 :: byte])) = (2, [4, 7, 0, 0])"
    by (simp add: rle_compress_def numeral_2_eq_2)
  have cc: "compress_contract (compress ?ctx) [7, 7, 7, 7]"
    using cd by (simp add: compress_contract_def)
  show ?thesis
    by (rule compress_f_incompressible_bit[OF wr ok cc cd])
qed

text \<open>
  The block loop in sequential mode on one record on the wire and the EOS word: the
  payload is the \<open>w & 0x7FFFFFFF\<close> bytes behind the size word \<open>w\<close>, the flag is bit 31
  of \<open>w\<close>, and the loop ends behind the EOS word with the block written.
\<close>

lemma decompress_blocks_one:
  assumes io: "mem_io ctx" and ok: "\<not> error ctx"
    and rem: "remaining (readCtx ctx) = storeU32 w @ p @ tr @ storeU32 LZ4S_EOS @ rest"
    and wz: "w \<noteq> LZ4S_EOS" and sz: "int (length p) = uint (w AND 0x7FFFFFFF)"
    and tr: "tr = (if c \<noteq> 0 then storeU32 ck else [])"
    and ck: "c \<noteq> 0 \<longrightarrow> ck = XXH32 p LZ4S_CHECKSUM_SEED"
    and bo: "block_ok (decompress ctx) B (bit w 31, p)"
  shows "lz4mtDecompress_blocks tk B c s True (ctx, False, xxh, []) =
     Some (ctx_emit (ctx_skip ctx (4 + length p + length tr + 4))
             (block_content (decompress ctx) B (bit w 31, p)),
           False,
           (if s then xxh\<lparr>xxh_input := xxh_input xxh @ block_content (decompress ctx) B (bit w 31, p)\<rparr>
            else xxh),
           [])"
proof -
  let ?ctx3 = "ctx_skip ctx (4 + length p + length tr)"
  let ?out = "block_content (decompress ctx) B (bit w 31, p)"
  let ?xxh = "if s then xxh\<lparr>xxh_input := xxh_input xxh @ ?out\<rparr> else xxh"
  have rem': "remaining (readCtx ctx) = storeU32 w @ p @ tr @ (storeU32 LZ4S_EOS @ rest)"
    using rem by simp
  have wr: "write' ?ctx3 = mem_write" and ok3: "\<not> error ?ctx3"
    using io ok by (simp_all add: mem_io_def)
  have ckw: "(if c \<noteq> 0 then ck else 0) = (if c \<noteq> 0 then XXH32 p LZ4S_CHECKSUM_SEED else 0)"
    using ck by simp
  have f: "lz4mtDecompress_f B c s ?ctx3 False xxh p (bit w 31) (if c \<noteq> 0 then ck else 0)
      = (LZ4MT_RESULT_OK, ctx_emit ?ctx3 ?out, False, ?xxh)"
    unfolding ckw using decompress_f_mem[OF wr ok3, of B "bit w 31" p c s xxh] bo by simp
  have step: "lz4mtDecompress_blocks tk B c s True (ctx, False, xxh, [])
      = lz4mtDecompress_blocks tk B c s True (ctx_emit ?ctx3 ?out, False, ?xxh, [])"
    using decompress_blocks_read[OF io ok rem' wz sz tr, of tk B s True xxh "[]"]
    by (simp only: f if_True Let_def prod.case)
  have io4: "mem_io (ctx_emit ?ctx3 ?out)" "\<not> error (ctx_emit ?ctx3 ?out)"
    using io ok by simp_all
  have rem4: "remaining (readCtx (ctx_emit ?ctx3 ?out)) = storeU32 LZ4S_EOS @ rest"
    using rem by (simp add: length_storeU32)
  have fin: "ctx_skip (ctx_emit ?ctx3 ?out) 4
      = ctx_emit (ctx_skip ctx (4 + length p + length tr + 4)) ?out"
    by simp
  show ?thesis
    unfolding step decompress_blocks_eos[OF io4 rem4] fin by simp
qed

text \<open>
  C6. The size word \<open>w\<close> the compress worker writes in front of a payload has the
  length of the payload alone in its low 31 bits (\<open>w & 0x7FFFFFFF\<close>), without the
  checksum trailer and without the flag, and the incompressible flag in bit 31; it is
  never the EOS word. The block loop of the decoder, for any size word \<open>w'\<close> on the
  wire that is not the EOS word, takes the \<open>w' & 0x7FFFFFFF\<close> bytes behind the word as
  the payload, bit 31 of \<open>w'\<close> as the incompressible flag and, with block checksums on,
  the four bytes behind the payload as the checksum: in sequential mode it writes the
  payload (flag set) or what the decoder callback makes of it (flag clear) and ends
  behind the EOS word that follows; in parallel mode these are the block and the flag it
  hands to the task it launches.
\<close>

theorem block_size_word:
  assumes wr: "write' ctx = mem_write" and ok: "result ctx = LZ4MT_RESULT_OK"
    and cc: "compress_contract (compress ctx) src"
    and cd: "compress ctx src (int (length src)) = (cmpSize, dst)"
    and p: "payload = (if cmpSize \<le> 0 then src else take (nat cmpSize) dst)"
    and tr: "trailer = (if c \<noteq> 0 then storeU32 (XXH32 payload LZ4S_CHECKSUM_SEED) else [])"
  shows "(\<exists>w. writeCtx (lz4mtCompress_f c ctx src) = writeCtx ctx @ storeU32 w @ payload @ trailer
          \<and> uint (w AND 0x7FFFFFFF) = int (length payload)
          \<and> (bit w 31 = (cmpSize \<le> 0))
          \<and> w \<noteq> LZ4S_EOS)
      \<and> (\<forall>tk dctx B s xxh w' p' ck rest.
            mem_io dctx \<and> \<not> error dctx \<and> w' \<noteq> LZ4S_EOS
            \<and> int (length p') = uint (w' AND 0x7FFFFFFF)
            \<and> (c \<noteq> 0 \<longrightarrow> ck = XXH32 p' LZ4S_CHECKSUM_SEED)
            \<and> block_ok (decompress dctx) B (bit w' 31, p')
            \<and> remaining (readCtx dctx)
                = storeU32 w' @ p' @ (if c \<noteq> 0 then storeU32 ck else [])
                  @ storeU32 LZ4S_EOS @ rest \<longrightarrow>
            lz4mtDecompress_blocks tk B c s True (dctx, False, xxh, [])
              = Some (ctx_emit (ctx_skip dctx (4 + length p' + (if c \<noteq> 0 then 4 else 0) + 4))
                        (if bit w' 31 then p'
                         else take (nat (fst (decompress dctx p' B))) (snd (decompress dctx p' B))),
                      False,
                      (if s then xxh\<lparr>xxh_input := xxh_input xxh @
                           (if bit w' 31 then p'
                            else take (nat (fst (decompress dctx p' B)))
                                   (snd (decompress dctx p' B)))\<rparr>
                       else xxh),
                      []))
      \<and> (\<forall>tk dctx B s xxh futures w' p' ck rest.
            mem_io dctx \<and> \<not> error dctx \<and> w' \<noteq> LZ4S_EOS
            \<and> int (length p') = uint (w' AND 0x7FFFFFFF)
            \<and> remaining (readCtx dctx)
                = storeU32 w' @ p' @ (if c \<noteq> 0 then storeU32 ck else []) @ rest \<longrightarrow>
            lz4mtDecompress_blocks tk B c s False (dctx, False, xxh, futures)
              = tk B c s
                  (ctx_skip dctx (4 + length p' + (if c \<noteq> 0 then 4 else 0)), False, xxh, futures)
                  p' (bit w' 31) (if c \<noteq> 0 then ck else 0))"
proof (intro conjI allI impI)
  let ?w = "(word_of_int (int (length payload)) :: u32) OR (if cmpSize \<le> 0 then incompMask else 0)"
  have e: "\<not> error ctx" using ok by (simp add: error_def)
  note pl = compressed_payload_length[of "compress ctx" src cmpSize dst, OF cc cd, folded p]
  have br: "block_record c (cmpSize \<le> 0) payload = storeU32 ?w @ payload @ trailer"
    by (simp only: block_record_def tr)
  have 1: "writeCtx (lz4mtCompress_f c ctx src) = writeCtx ctx @ storeU32 ?w @ payload @ trailer"
    by (simp add: compress_f_mem[OF wr e cc] compressed_record_def
        compressed_block_cases[of "compress ctx" src cmpSize dst, OF cd] p[symmetric] br)
  note sd = sizeword_decode[OF pl(2) refl, of "cmpSize \<le> 0"]
  have m: "(0x7FFFFFFF :: u32) = NOT incompMask" by (simp add: incompMask_def)
  have 2: "uint (?w AND 0x7FFFFFFF) = int (length payload)"
    unfolding m using uint_low[of ?w] sint_low[of ?w] sd(1) by simp
  have 4: "?w \<noteq> LZ4S_EOS"
    using sd(4) pl(3) by (auto simp: LZ4S_EOS_def)
  show "\<exists>w. writeCtx (lz4mtCompress_f c ctx src) = writeCtx ctx @ storeU32 w @ payload @ trailer
          \<and> uint (w AND 0x7FFFFFFF) = int (length payload)
          \<and> (bit w 31 = (cmpSize \<le> 0))
          \<and> w \<noteq> LZ4S_EOS"
    by (intro exI[of _ ?w] conjI) (rule 1 2 sd(3) 4)+
next
  fix tk :: "(mem_reader, byte list) async_tasks"
    and dctx :: "(mem_reader, byte list) Lz4MtContext"
    and B s xxh and w' :: u32 and p' ck rest
  assume a: "mem_io dctx \<and> \<not> error dctx \<and> w' \<noteq> LZ4S_EOS
            \<and> int (length p') = uint (w' AND 0x7FFFFFFF)
            \<and> (c \<noteq> 0 \<longrightarrow> ck = XXH32 p' LZ4S_CHECKSUM_SEED)
            \<and> block_ok (decompress dctx) B (bit w' 31, p')
            \<and> remaining (readCtx dctx)
                = storeU32 w' @ p' @ (if c \<noteq> 0 then storeU32 ck else [])
                  @ storeU32 LZ4S_EOS @ rest"
  then have io: "mem_io dctx" and ok': "\<not> error dctx" and wz: "w' \<noteq> LZ4S_EOS"
    and sz: "int (length p') = uint (w' AND 0x7FFFFFFF)"
    and ck: "c \<noteq> 0 \<longrightarrow> ck = XXH32 p' LZ4S_CHECKSUM_SEED"
    and bo: "block_ok (decompress dctx) B (bit w' 31, p')"
    and rem: "remaining (readCtx dctx)
                = storeU32 w' @ p' @ (if c \<noteq> 0 then storeU32 ck else [])
                  @ storeU32 LZ4S_EOS @ rest"
    by simp_all
  have l: "length (if c \<noteq> 0 then storeU32 ck else []) = (if c \<noteq> 0 then 4 else 0)"
    by (simp add: length_storeU32)
  show "lz4mtDecompress_blocks tk B c s True (dctx, False, xxh, [])
              = Some (ctx_emit (ctx_skip dctx (4 + length p' + (if c \<noteq> 0 then 4 else 0) + 4))
                        (if bit w' 31 then p'
                         else take (nat (fst (decompress dctx p' B))) (snd (decompress dctx p' B))),
                      False,
                      (if s then xxh\<lparr>xxh_input := xxh_input xxh @
                           (if bit w' 31 then p'
                            else take (nat (fst (decompress dctx p' B)))
                                   (snd (decompress dctx p' B)))\<rparr>
                       else xxh),
                      [])"
    using decompress_blocks_one[OF io ok' rem wz sz refl ck bo, of tk s xxh]
    by (simp only: l block_content_def fst_conv snd_conv)
next
  fix tk :: "(mem_reader, byte list) async_tasks"
    and dctx :: "(mem_reader, byte list) Lz4MtContext"
    and B s xxh futures and w' :: u32 and p' ck rest
  assume a: "mem_io dctx \<and> \<not> error dctx \<and> w' \<noteq> LZ4S_EOS
            \<and> int (length p') = uint (w' AND 0x7FFFFFFF)
            \<and> remaining (readCtx dctx)
                = storeU32 w' @ p' @ (if c \<noteq> 0 then storeU32 ck else []) @ rest"
  then have io: "mem_io dctx" and ok': "\<not> error dctx" and wz: "w' \<noteq> LZ4S_EOS"
    and sz: "int (length p') = uint (w' AND 0x7FFFFFFF)"
    and rem: "remaining (readCtx dctx)
                = storeU32 w' @ p' @ (if c \<noteq> 0 then storeU32 ck else []) @ rest"
    by simp_all
  have l: "length (if c \<noteq> 0 then storeU32 ck else []) = (if c \<noteq> 0 then 4 else 0)"
    by (simp add: length_storeU32)
  show "lz4mtDecompress_blocks tk B c s False (dctx, False, xxh, futures)
              = tk B c s
                  (ctx_skip dctx (4 + length p' + (if c \<noteq> 0 then 4 else 0)), False, xxh, futures)
                  p' (bit w' 31) (if c \<noteq> 0 then ck else 0)"
    using decompress_blocks_read[OF io ok' rem wz sz refl, of tk B s False xxh futures]
    by (simp only: l if_False)
qed

text \<open>
  The record the compress worker writes for a run of four equal bytes, with block
  checksums on, and what the block loop makes of that record and the EOS word.
\<close>

theorem block_size_word_witness:
  "\<exists>w. writeCtx (lz4mtCompress_f 4
               (mem_context rle_compress rle_decompress LZ4MT_MODE_SEQUENTIAL []) [7, 7, 7, 7])
        = storeU32 w @ [4, 7] @ storeU32 (XXH32 [4, 7] LZ4S_CHECKSUM_SEED)
      \<and> uint (w AND 0x7FFFFFFF) = 2 \<and> \<not> bit w 31 \<and> w \<noteq> LZ4S_EOS
      \<and> map_option (\<lambda>(c, q, x, f). (writeCtx c, remaining (readCtx c), q, xxh_input x, f))
          (lz4mtDecompress_blocks no_tasks 65536 4 True True
             (mem_context rle_compress rle_decompress LZ4MT_MODE_SEQUENTIAL
                (storeU32 w @ [4, 7] @ storeU32 (XXH32 [4, 7] LZ4S_CHECKSUM_SEED)
                 @ storeU32 LZ4S_EOS @ [9]),
              False, Xxh32_init LZ4S_CHECKSUM_SEED, []))
        = Some ([7, 7, 7, 7], [9], False, [7, 7, 7, 7], [])"
proof -
  let ?ctx = "mem_context rle_compress rle_decompress LZ4MT_MODE_SEQUENTIAL []"
  have wr: "write' ?ctx = mem_write" and ok: "result ?ctx = LZ4MT_RESULT_OK"
    by (simp_all add: mem_context_def)
  have cd: "compress ?ctx [7, 7, 7, 7] (int (length [7, 7, 7, 7 :: byte])) = (2, [4, 7, 0, 0])"
    by (simp add: rle_compress_def numeral_2_eq_2)
  have cc: "compress_contract (compress ?ctx) [7, 7, 7, 7]"
    using cd by (simp add: compress_contract_def)
  have p: "[4, 7] = (if (2::int) \<le> 0 then [7, 7, 7, 7] else take (nat 2) [4, 7, 0, 0 :: byte])"
    by (simp add: numeral_2_eq_2)
  have tr: "storeU32 (XXH32 [4, 7] LZ4S_CHECKSUM_SEED)
      = (if (4::int) \<noteq> 0 then storeU32 (XXH32 [4, 7] LZ4S_CHECKSUM_SEED) else [])"
    by simp
  note t = block_size_word[OF wr ok cc cd p tr]
  from conjunct1[OF t] obtain w where
    w1: "writeCtx (lz4mtCompress_f 4 ?ctx [7, 7, 7, 7])
        = storeU32 w @ [4, 7] @ storeU32 (XXH32 [4, 7] LZ4S_CHECKSUM_SEED)"
    and w2: "uint (w AND 0x7FFFFFFF) = 2" and w3: "\<not> bit w 31" and w4: "w \<noteq> LZ4S_EOS"
    by auto
  let ?dctx = "mem_context rle_compress rle_decompress LZ4MT_MODE_SEQUENTIAL
                (storeU32 w @ [4, 7] @ storeU32 (XXH32 [4, 7] LZ4S_CHECKSUM_SEED)
                 @ storeU32 LZ4S_EOS @ [9])"
  define pad where "pad = replicate (65536 - 4) (0 :: byte)"
  have rep: "replicate 4 (7 :: byte) = [7, 7, 7, 7]"
    by (simp add: numeral_eq_Suc)
  have d: "rle_decompress [4, 7] 65536 = (4, [7, 7, 7, 7] @ pad)"
    by (simp add: rle_decompress_def pad_def rep)
  have bo: "block_ok (decompress ?dctx) 65536 (bit w 31, [4, 7])"
    using w3 by (simp add: block_ok_def d)
  have pre: "mem_io ?dctx \<and> \<not> error ?dctx \<and> w \<noteq> LZ4S_EOS
            \<and> int (length [4, 7 :: byte]) = uint (w AND 0x7FFFFFFF)
            \<and> ((4::int) \<noteq> 0 \<longrightarrow> XXH32 [4, 7] LZ4S_CHECKSUM_SEED = XXH32 [4, 7] LZ4S_CHECKSUM_SEED)
            \<and> block_ok (decompress ?dctx) 65536 (bit w 31, [4, 7])
            \<and> remaining (readCtx ?dctx)
                = storeU32 w @ [4, 7]
                  @ (if (4::int) \<noteq> 0 then storeU32 (XXH32 [4, 7] LZ4S_CHECKSUM_SEED) else [])
                  @ storeU32 LZ4S_EOS @ [9]"
    using w2 w4 bo by simp
  have run: "lz4mtDecompress_blocks no_tasks 65536 4 True True
             (?dctx, False, Xxh32_init LZ4S_CHECKSUM_SEED, [])
      = Some (ctx_emit (ctx_skip ?dctx (4 + length [4, 7 :: byte] + (if (4::int) \<noteq> 0 then 4 else 0) + 4))
                (if bit w 31 then [4, 7]
                 else take (nat (fst (decompress ?dctx [4, 7] 65536)))
                        (snd (decompress ?dctx [4, 7] 65536))),
              False,
              (if True then (Xxh32_init LZ4S_CHECKSUM_SEED)
                   \<lparr>xxh_input := xxh_input (Xxh32_init LZ4S_CHECKSUM_SEED) @
                     (if bit w 31 then [4, 7]
                      else take (nat (fst (decompress ?dctx [4, 7] 65536)))
                             (snd (decompress ?dctx [4, 7] 65536)))\<rparr>
               else Xxh32_init LZ4S_CHECKSUM_SEED),
              [])"
    by (rule conjunct1[OF conjunct2[OF t], THEN spec, THEN spec, THEN spec, THEN spec, THEN spec,
          THEN spec, THEN spec, THEN spec, THEN spec, THEN mp, OF pre])
  have "map_option (\<lambda>(c, q, x, f). (writeCtx c, remaining (readCtx c), q, xxh_input x, f))
          (lz4mtDecompress_blocks no_tasks 65536 4 True True
             (?dctx, False, Xxh32_init LZ4S_CHECKSUM_SEED, []))
        = Some ([7, 7, 7, 7], [9], False, [7, 7, 7, 7], [])"
    unfolding run using w3 by (simp add: d length_storeU32 Xxh32_init_def)
  with w1 w2 w3 w4 show ?thesis by blast
qed

subsection \<open>Inputs of a whole number of blocks\<close>

lemma blocks_of_multiple:
  assumes "0 < n" "length xs = k * n"
  shows "length (blocks_of n xs) = k \<and> (\<forall>b \<in> set (blocks_of n xs). length b = n)"
  using assms(2)
proof (induction k arbitrary: xs)
  case 0
  then show ?case by simp
next
  case (Suc k)
  then have ne: "xs \<noteq> []" using assms(1) by auto
  have l: "length (drop n xs) = k * n" using Suc.prems by simp
  have t: "length (take n xs) = n" using Suc.prems by simp
  show ?case
    using Suc.IH[OF l] t by (simp add: blocks_of_step[OF assms(1) ne])
qed

lemma last_blocks_of:
  assumes "0 < n" "length xs = k * n" "0 < k"
  shows "last (blocks_of n xs) = drop (length xs - n) xs"
  using assms(2,3)
proof (induction k arbitrary: xs)
  case 0
  then show ?case by simp
next
  case (Suc k)
  then have ne: "xs \<noteq> []" using assms(1) by auto
  have l: "length (drop n xs) = k * n" using Suc.prems by simp
  show ?case
  proof (cases "k = 0")
    case True
    then have "length xs = n" using Suc.prems by simp
    then show ?thesis by (simp add: blocks_of_step[OF assms(1) ne])
  next
    case False
    then have k: "0 < k" by simp
    have nb: "blocks_of n (drop n xs) \<noteq> []"
      using blocks_of_multiple[OF assms(1) l] k by auto
    have "n + (length xs - n - n) = length xs - n" using Suc.prems k by simp
    then show ?thesis
      using Suc.IH[OF l k] nb by (simp add: blocks_of_step[OF assms(1) ne])
  qed
qed

text \<open>
  C8. For an input whose length is a positive multiple \<open>k\<close> of the block maximum size
  \<open>B\<close>, read through the in-memory callbacks, \<open>lz4mtCompress\<close> returns OK and writes
  the header, the records of the \<open>k\<close> blocks, each of exactly \<open>B\<close> input bytes, the
  EOS word right behind the record of the last \<open>B\<close> bytes of the input, and the stream
  checksum if it is on.
\<close>

theorem compress_exact_multiple:
  assumes v: "validateStreamDescriptor D = LZ4MT_RESULT_OK"
    and asrt: "streamSize (flg D) = 0 \<or> streamSizeValue D \<noteq> 0"
    and cc: "\<forall>src. int (length src) \<le> getBlocksize (blockMaximumSize (bd D)) \<longrightarrow>
                compress_contract cmp src"
    and len: "length S = k * nat (getBlocksize (blockMaximumSize (bd D)))" and k: "0 < k"
    and B: "B = nat (getBlocksize (blockMaximumSize (bd D)))"
    and c: "c = (if blockChecksum (flg D) \<noteq> 0 then 4 else 0)"
  shows "\<exists>ctx'. lz4mtCompress (mem_context cmp dec m S) D = Some (LZ4MT_RESULT_OK, ctx')
      \<and> writeCtx ctx' = lz4mtCompress_header D
           @ concat (map (compressed_record cmp c) (butlast (blocks_of B S)))
           @ compressed_record cmp c (drop (length S - B) S)
           @ storeU32 LZ4S_EOS
           @ (if streamChecksum (flg D) \<noteq> 0 then storeU32 (XXH32 S LZ4S_CHECKSUM_SEED) else [])
      \<and> length (drop (length S - B) S) = B
      \<and> length (blocks_of B S) = k
      \<and> (\<forall>b \<in> set (blocks_of B S). length b = B)
      \<and> concat (blocks_of B S) = S"
proof -
  let ?ctx0 = "mem_context cmp dec m S"
  have Bp: "0 < getBlocksize (blockMaximumSize (bd D))"
    using getBlocksize_range(1) validate_OK_fields(5,6)[OF v] by simp
  then have B0: "0 < B" by (simp add: B)
  have cc': "\<forall>src \<in> set (blocks_of (nat (getBlocksize (blockMaximumSize (bd D))))
      (remaining (readCtx ?ctx0))). compress_contract (compress ?ctx0) src"
  proof
    fix src assume "src \<in> set (blocks_of (nat (getBlocksize (blockMaximumSize (bd D))))
      (remaining (readCtx ?ctx0)))"
    from blocks_of_length_le[OF this] Bp
    have "int (length src) \<le> getBlocksize (blockMaximumSize (bd D))" by linarith
    with cc show "compress_contract (compress ?ctx0) src" by simp
  qed
  have c1: "lz4mtCompress ?ctx0 D = Some (LZ4MT_RESULT_OK,
      ctx_emit (ctx_skip ?ctx0 (length (remaining (readCtx ?ctx0))))
        (frame_bytes (compress ?ctx0) D (remaining (readCtx ?ctx0))))"
    by (rule lz4mtCompress_mem[OF _ _ v asrt cc']) simp_all
  note bm = blocks_of_multiple[OF B0 len[folded B]]
  have ne: "blocks_of B S \<noteq> []" using bm k by auto
  have lst: "last (blocks_of B S) = drop (length S - B) S"
    by (rule last_blocks_of[OF B0 len[folded B] k])
  have split: "blocks_of B S = butlast (blocks_of B S) @ [drop (length S - B) S]"
    using ne lst by (metis append_butlast_last_id)
  have "concat (map (compressed_record cmp c) (blocks_of B S))
      = concat (map (compressed_record cmp c) (butlast (blocks_of B S)))
        @ compressed_record cmp c (drop (length S - B) S)"
    by (subst split) simp
  then have w: "frame_bytes cmp D S = lz4mtCompress_header D
           @ concat (map (compressed_record cmp c) (butlast (blocks_of B S)))
           @ compressed_record cmp c (drop (length S - B) S)
           @ storeU32 LZ4S_EOS
           @ (if streamChecksum (flg D) \<noteq> 0 then storeU32 (XXH32 S LZ4S_CHECKSUM_SEED) else [])"
    by (simp add: frame_bytes_def B[symmetric] c[symmetric])
  have ll: "length (drop (length S - B) S) = B"
    using len k B by (cases k) simp_all
  show ?thesis
    using c1 w ll bm concat_blocks_of[OF B0, of S]
    by (intro exI[of _ "ctx_emit (ctx_skip ?ctx0 (length (remaining (readCtx ?ctx0))))
        (frame_bytes (compress ?ctx0) D (remaining (readCtx ?ctx0)))"]) simp
qed

theorem compress_exact_multiple_witness:
  "\<exists>ctx'. lz4mtCompress (mem_context store_compress store_decompress 0 (replicate 65536 0))
        (lz4mtInitStreamDescriptor\<lparr>bd := \<lparr>reserved3 = 0, blockMaximumSize = 4, reserved2 = 0\<rparr>\<rparr>)
        = Some (LZ4MT_RESULT_OK, ctx')
      \<and> writeCtx ctx' = lz4mtCompress_header
             (lz4mtInitStreamDescriptor\<lparr>bd := \<lparr>reserved3 = 0, blockMaximumSize = 4, reserved2 = 0\<rparr>\<rparr>)
           @ concat (map (compressed_record store_compress 0)
               (butlast (blocks_of 65536 (replicate 65536 0))))
           @ compressed_record store_compress 0 (drop (65536 - 65536) (replicate 65536 0))
           @ storeU32 LZ4S_EOS
           @ storeU32 (XXH32 (replicate 65536 0) LZ4S_CHECKSUM_SEED)
      \<and> length (drop (65536 - 65536) (replicate 65536 (0 :: byte))) = 65536
      \<and> length (blocks_of 65536 (replicate 65536 (0 :: byte))) = 1"
proof -
  let ?D = "lz4mtInitStreamDescriptor\<lparr>bd := \<lparr>reserved3 = 0, blockMaximumSize = 4, reserved2 = 0\<rparr>\<rparr>"
  have v: "validateStreamDescriptor ?D = LZ4MT_RESULT_OK"
    by (simp add: validateStreamDescriptor_def lz4mtInitStreamDescriptor_def)
  have a: "streamSize (flg ?D) = 0 \<or> streamSizeValue ?D \<noteq> 0"
    by (simp add: lz4mtInitStreamDescriptor_def)
  have g: "getBlocksize (blockMaximumSize (bd ?D)) = 65536"
    by (simp add: getBlocksize_def)
  have cc: "\<forall>src. int (length src) \<le> getBlocksize (blockMaximumSize (bd ?D)) \<longrightarrow>
                compress_contract store_compress src"
    unfolding g by (auto intro!: compress_contract_store)
  have len: "length (replicate 65536 (0 :: byte)) = 1 * nat (getBlocksize (blockMaximumSize (bd ?D)))"
    unfolding g by simp
  have B: "(65536 :: nat) = nat (getBlocksize (blockMaximumSize (bd ?D)))"
    unfolding g by simp
  have c: "(0 :: int) = (if blockChecksum (flg ?D) \<noteq> 0 then 4 else 0)"
    by (simp add: lz4mtInitStreamDescriptor_def)
  have s: "streamChecksum (flg ?D) \<noteq> 0" by (simp add: lz4mtInitStreamDescriptor_def)
  from compress_exact_multiple[OF v a cc len _ B c, of store_decompress 0]
  show ?thesis using s by auto
qed

subsection \<open>Truncated input\<close>

lemma checkbits_byte:
  "(ucast (getCheckBits_FromXXH h) :: byte) = ucast (drop_bit 8 h)"
  "bit (ucast (getCheckBits_FromXXH h) :: byte) i \<longleftrightarrow> i < 8 \<and> bit h (8 + i)"
proof -
  have m: "(0xff :: u32) = mask 8" by (simp add: mask_eq_exp_minus_1)
  show "(ucast (getCheckBits_FromXXH h) :: byte) = ucast (drop_bit 8 h)"
    unfolding getCheckBits_FromXXH_def m
    by (rule bit_word_eqI) (auto simp add: bit_simps)
  then show "bit (ucast (getCheckBits_FromXXH h) :: byte) i \<longleftrightarrow> i < 8 \<and> bit h (8 + i)"
    by (auto simp add: bit_simps)
qed

lemma decompress_bad_header:
  assumes io: "mem_io ctx" and ok: "\<not> error ctx"
    and rem: "remaining (readCtx ctx) = storeU32 LZ4S_MAGICNUMBER @ [fb, bb] @ ext @ [hc] @ rest"
    and v: "validateStreamDescriptor (sd0\<lparr>flg := charToFlg fb, bd := charToBc bb\<rparr>) = LZ4MT_RESULT_OK"
    and le: "length ext = (if streamSize (charToFlg fb) \<noteq> 0 then 8 else 0)"
    and hc: "hc \<noteq> ucast (getCheckBits_FromXXH (XXH32 ([fb, bb] @ ext) LZ4S_CHECKSUM_SEED))"
  shows "\<exists>sd2. lz4mtDecompress_frames tk (ctx, sd0, False) =
     Some ((ctx_skip ctx (7 + length ext))\<lparr>result := LZ4MT_RESULT_INVALID_HEADER_CHECKSUM\<rparr>, sd2)"
proof -
  from io have rd: "read ctx = mem_read" and eof: "readEof ctx = mem_readEof"
    by (simp_all add: mem_io_def)
  have ne: "\<not> ctx_readEof ctx"
    using rem length_storeU32[of LZ4S_MAGICNUMBER] by (auto simp: ctx_readEof_mem[OF eof])
  have r1: "readU32 ctx = (LZ4S_MAGICNUMBER, ctx_skip ctx 4)"
    using readU32_mem[OF rd ok] rem by simp
  have rem4: "remaining (readCtx (ctx_skip ctx 4)) = [fb, bb] @ ext @ [hc] @ rest"
    using rem by (simp add: length_storeU32)
  have h: "lz4mtDecompress_header (ctx_skip ctx 4) sd0 =
      (False, (ctx_skip ctx (7 + length ext))\<lparr>result := LZ4MT_RESULT_INVALID_HEADER_CHECKSUM\<rparr>,
       sd0\<lparr>flg := charToFlg fb, bd := charToBc bb,
          streamSizeValue := (if streamSize (charToFlg fb) \<noteq> 0 then loadU64 (ext @ [hc])
                              else streamSizeValue sd0)\<rparr>)"
    using decompress_header_mem[OF _ _ rem4 v le] io ok hc by simp
  show ?thesis
    by (subst lz4mtDecompress_frames.simps)
      (simp add: ne ok r1 not_skippable_magic h Let_def split del: if_split cong: if_cong)
qed

lemma sint_low_uint: "sint ((w :: u32) AND NOT incompMask) = uint (w AND 0x7FFFFFFF)"
proof -
  have m: "(0x7FFFFFFF :: u32) = NOT incompMask" by (simp add: incompMask_def)
  show ?thesis unfolding m by (simp add: sint_low uint_low)
qed

text \<open>
  A frame in sequential mode that is cut behind whole block records, with the rest
  \<open>q\<close> of the input such that the block loop ends with the error \<open>r\<close>.
\<close>

lemma decompress_cut:
  assumes v: "validateStreamDescriptor D = LZ4MT_RESULT_OK" and fb: "flags_are_bits D"
    and seq: "m AND LZ4MT_MODE_SEQUENTIAL \<noteq> 0"
    and bo: "\<forall>b \<in> set bs. block_ok dec (getBlocksize (blockMaximumSize (bd D))) b"
    and r: "r \<noteq> LZ4MT_RESULT_OK"
    and tail: "\<And>(ctxB :: (mem_reader, byte list) Lz4MtContext) xxh.
        mem_io ctxB \<Longrightarrow> \<not> error ctxB \<Longrightarrow> remaining (readCtx ctxB) = q \<Longrightarrow>
        \<exists>j \<ge> length q.
        lz4mtDecompress_blocks tk (getBlocksize (blockMaximumSize (bd D)))
          (if blockChecksum (flg D) \<noteq> 0 then 4 else 0)
          (0 \<noteq> streamChecksum (flg D)) True (ctxB, False, xxh, [])
        = Some ((ctx_skip ctxB j)\<lparr>result := r\<rparr>, True, xxh, [])"
  shows "\<exists>ctx2 sd'.
      lz4mtDecompress tk
        (mem_context cmp dec m
           (lz4mtCompress_header D
            @ concat (map (\<lambda>b. block_record (if blockChecksum (flg D) \<noteq> 0 then 4 else 0)
                             (fst b) (snd b)) bs)
            @ q))
        sd0
      = Some (r, ctx2, sd')
    \<and> writeCtx ctx2
        = concat (map (block_content dec (getBlocksize (blockMaximumSize (bd D)))) bs)"
proof -
  let ?dctx = "mem_context cmp dec m
           (lz4mtCompress_header D
            @ concat (map (\<lambda>b. block_record (if blockChecksum (flg D) \<noteq> 0 then 4 else 0)
                             (fst b) (snd b)) bs)
            @ q)"
  have rem: "remaining (readCtx ?dctx) = lz4mtCompress_header D
        @ concat (map (\<lambda>b. block_record (if blockChecksum (flg D) \<noteq> 0 then 4 else 0) (fst b) (snd b)) bs)
        @ q"
    by simp
  have seq': "mode ?dctx AND LZ4MT_MODE_SEQUENTIAL \<noteq> 0" using seq by simp
  have bo': "\<forall>b \<in> set bs. block_ok (decompress ?dctx) (getBlocksize (blockMaximumSize (bd D))) b"
    using bo by simp
  have io: "mem_io ?dctx" and ok: "\<not> error ?dctx" by simp_all
  have "\<exists>sd2. lz4mtDecompress_frames tk (?dctx, sd0, False) =
     Some ((ctx_emit (ctx_skip ?dctx (length (remaining (readCtx ?dctx))))
              (concat (map (block_content (decompress ?dctx)
                 (getBlocksize (blockMaximumSize (bd D)))) bs)))
                  \<lparr>result := r\<rparr>, sd2)"
  proof (rule decompress_cut_frame_of_descriptor[OF io ok seq' v fb rem bo' refl r])
    fix ctxB :: "(mem_reader, byte list) Lz4MtContext" and xxh
    assume "mem_io ctxB" "\<not> error ctxB" "remaining (readCtx ctxB) = q"
    then show "\<exists>j \<ge> length q.
        lz4mtDecompress_blocks tk (getBlocksize (blockMaximumSize (bd D)))
          (if blockChecksum (flg D) \<noteq> 0 then 4 else 0)
          (0 \<noteq> streamChecksum (flg D)) True (ctxB, False, xxh, [])
        = Some ((ctx_skip ctxB j)\<lparr>result := r\<rparr>, True, xxh, [])"
      by (rule tail)
  qed
  then obtain sd2 where fr: "lz4mtDecompress_frames tk (?dctx, sd0, False) =
     Some ((ctx_emit (ctx_skip ?dctx (length (remaining (readCtx ?dctx))))
              (concat (map (block_content (decompress ?dctx)
                 (getBlocksize (blockMaximumSize (bd D)))) bs)))
                  \<lparr>result := r\<rparr>, sd2)"
    by blast
  from lz4mtDecompress_frames_result[OF ok fr]
  show ?thesis by simp
qed

text \<open>
  C7, as the code has it. An in-memory input, read in sequential mode, that holds a
  valid frame header (of a descriptor with 0/1 flags), any number of block records the
  decoder takes without an error, and then a rest \<open>q\<close> in which no EOS word is read.
  What \<open>lz4mtDecompress\<close> returns depends on where the input ends; in every case the
  blocks decoded so far have been written.

  \<^item> \<open>q\<close> is 1 to 3 bytes, so that the next size word is cut: CannotReadBlockSize.
  \<^item> \<open>q\<close> is a size word and fewer payload bytes than it announces: CannotReadBlockData.
  \<^item> Block checksums are on and \<open>q\<close> is a size word, its payload and 0 to 3 bytes of
    the checksum: CannotReadBlockChecksum.
  \<^item> \<open>q\<close> is empty, the input ends behind a block record: the block loop ends on
    \<^verbatim>\<open>readEof\<close>, and the call returns CannotReadStreamChecksum if stream checksums are
    on and OK if they are off.
\<close>

theorem truncated_block_size:
  assumes v: "validateStreamDescriptor D = LZ4MT_RESULT_OK" and fb: "flags_are_bits D"
    and seq: "m AND LZ4MT_MODE_SEQUENTIAL \<noteq> 0"
    and B: "B = getBlocksize (blockMaximumSize (bd D))"
    and c: "c = (if blockChecksum (flg D) \<noteq> 0 then 4 else 0)"
    and bo: "\<forall>b \<in> set bs. block_ok dec B b"
    and inp: "input = (\<lambda>q. lz4mtCompress_header D
                 @ concat (map (\<lambda>b. block_record c (fst b) (snd b)) bs) @ q)"
    and out: "out = concat (map (block_content dec B) bs)"
  shows "(\<forall>q. q \<noteq> [] \<and> length q < 4 \<longrightarrow>
            (\<exists>ctx2 sd'. lz4mtDecompress tk (mem_context cmp dec m (input q)) sd0
                 = Some (LZ4MT_RESULT_CANNOT_READ_BLOCK_SIZE, ctx2, sd')
               \<and> writeCtx ctx2 = out))
      \<and> (\<forall>w p. w \<noteq> LZ4S_EOS \<and> int (length p) < uint (w AND 0x7FFFFFFF) \<longrightarrow>
            (\<exists>ctx2 sd'. lz4mtDecompress tk (mem_context cmp dec m (input (storeU32 w @ p))) sd0
                 = Some (LZ4MT_RESULT_CANNOT_READ_BLOCK_DATA, ctx2, sd')
               \<and> writeCtx ctx2 = out))
      \<and> (\<forall>w p t. blockChecksum (flg D) \<noteq> 0 \<and> w \<noteq> LZ4S_EOS
             \<and> int (length p) = uint (w AND 0x7FFFFFFF) \<and> length t < 4 \<longrightarrow>
            (\<exists>ctx2 sd'. lz4mtDecompress tk (mem_context cmp dec m (input (storeU32 w @ p @ t))) sd0
                 = Some (LZ4MT_RESULT_CANNOT_READ_BLOCK_CHECKSUM, ctx2, sd')
               \<and> writeCtx ctx2 = out))
      \<and> (\<exists>ctx2 sd'. lz4mtDecompress tk (mem_context cmp dec m (input [])) sd0
             = Some (if streamChecksum (flg D) \<noteq> 0 then LZ4MT_RESULT_CANNOT_READ_STREAM_CHECKSUM
                     else LZ4MT_RESULT_OK, ctx2, sd')
           \<and> writeCtx ctx2 = out)"
proof (intro conjI allI impI)
  note bo' = bo[unfolded B]
  {
    fix q :: "byte list"
    assume q: "q \<noteq> [] \<and> length q < 4"
    show "\<exists>ctx2 sd'. lz4mtDecompress tk (mem_context cmp dec m (input q)) sd0
                 = Some (LZ4MT_RESULT_CANNOT_READ_BLOCK_SIZE, ctx2, sd')
               \<and> writeCtx ctx2 = out"
      unfolding inp out B c
    proof (rule decompress_cut[OF v fb seq bo'])
      fix ctxB :: "(mem_reader, byte list) Lz4MtContext" and xxh
      assume that: "mem_io ctxB" "\<not> error ctxB" "remaining (readCtx ctxB) = q"
      show "\<exists>j \<ge> length q.
        lz4mtDecompress_blocks tk (getBlocksize (blockMaximumSize (bd D)))
          (if blockChecksum (flg D) \<noteq> 0 then 4 else 0)
          (0 \<noteq> streamChecksum (flg D)) True (ctxB, False, xxh, [])
        = Some ((ctx_skip ctxB j)\<lparr>result := LZ4MT_RESULT_CANNOT_READ_BLOCK_SIZE\<rparr>, True, xxh, [])"
        using decompress_blocks_short[OF that(1,2), of tk _ _ _ True xxh "[]"] q that(3)
        by (intro exI[of _ 4]) simp
    qed simp
  next
    fix w :: u32 and p :: "byte list"
    assume a: "w \<noteq> LZ4S_EOS \<and> int (length p) < uint (w AND 0x7FFFFFFF)"
    then have wz: "w \<noteq> LZ4S_EOS" and short: "int (length p) < sint (w AND NOT incompMask)"
      by (simp_all add: sint_low_uint)
    show "\<exists>ctx2 sd'. lz4mtDecompress tk (mem_context cmp dec m (input (storeU32 w @ p))) sd0
                 = Some (LZ4MT_RESULT_CANNOT_READ_BLOCK_DATA, ctx2, sd')
               \<and> writeCtx ctx2 = out"
      unfolding inp out B c
    proof (rule decompress_cut[OF v fb seq bo'])
      fix ctxB :: "(mem_reader, byte list) Lz4MtContext" and xxh
      assume that: "mem_io ctxB" "\<not> error ctxB" "remaining (readCtx ctxB) = storeU32 w @ p"
      show "\<exists>j \<ge> length (storeU32 w @ p).
        lz4mtDecompress_blocks tk (getBlocksize (blockMaximumSize (bd D)))
          (if blockChecksum (flg D) \<noteq> 0 then 4 else 0)
          (0 \<noteq> streamChecksum (flg D)) True (ctxB, False, xxh, [])
        = Some ((ctx_skip ctxB j)\<lparr>result := LZ4MT_RESULT_CANNOT_READ_BLOCK_DATA\<rparr>, True, xxh, [])"
        using decompress_blocks_short_data[OF that wz short, of tk _ _ _ True xxh "[]"] short
        by (intro exI[of _ "4 + nat (sint (w AND NOT incompMask))"]) (simp add: length_storeU32)
    qed simp
  next
    fix w :: u32 and p t :: "byte list"
    assume a: "blockChecksum (flg D) \<noteq> 0 \<and> w \<noteq> LZ4S_EOS
             \<and> int (length p) = uint (w AND 0x7FFFFFFF) \<and> length t < 4"
    then have bc: "blockChecksum (flg D) \<noteq> 0" and wz: "w \<noteq> LZ4S_EOS"
      and sz: "sint (w AND NOT incompMask) = int (length p)" and t: "length t < 4"
      by (simp_all add: sint_low_uint)
    have c4: "(if blockChecksum (flg D) \<noteq> 0 then 4 else 0 :: int) \<noteq> 0" using bc by simp
    show "\<exists>ctx2 sd'. lz4mtDecompress tk (mem_context cmp dec m (input (storeU32 w @ p @ t))) sd0
                 = Some (LZ4MT_RESULT_CANNOT_READ_BLOCK_CHECKSUM, ctx2, sd')
               \<and> writeCtx ctx2 = out"
      unfolding inp out B c
    proof (rule decompress_cut[OF v fb seq bo'])
      fix ctxB :: "(mem_reader, byte list) Lz4MtContext" and xxh
      assume that: "mem_io ctxB" "\<not> error ctxB" "remaining (readCtx ctxB) = storeU32 w @ p @ t"
      show "\<exists>j \<ge> length (storeU32 w @ p @ t).
        lz4mtDecompress_blocks tk (getBlocksize (blockMaximumSize (bd D)))
          (if blockChecksum (flg D) \<noteq> 0 then 4 else 0)
          (0 \<noteq> streamChecksum (flg D)) True (ctxB, False, xxh, [])
        = Some ((ctx_skip ctxB j)\<lparr>result := LZ4MT_RESULT_CANNOT_READ_BLOCK_CHECKSUM\<rparr>, True, xxh, [])"
        using decompress_blocks_short_checksum[OF that wz sz c4 t, of tk _ _ True xxh "[]"] t
        by (intro exI[of _ "4 + length p + 4"]) (simp add: length_storeU32)
    qed simp
  }
  let ?dctx = "mem_context cmp dec m (input [])"
  have rem: "remaining (readCtx ?dctx) = lz4mtCompress_header D
        @ concat (map (\<lambda>b. block_record (if blockChecksum (flg D) \<noteq> 0 then 4 else 0) (fst b) (snd b)) bs)"
    by (simp add: inp c)
  have seq': "mode ?dctx AND LZ4MT_MODE_SEQUENTIAL \<noteq> 0" using seq by simp
  have bo'': "\<forall>b \<in> set bs. block_ok (decompress ?dctx) (getBlocksize (blockMaximumSize (bd D))) b"
    using bo' by simp
  from decompress_boundary_frame_of_descriptor[OF _ _ seq' v fb rem bo'' refl, of tk sd0]
  obtain sd2 where fr: "lz4mtDecompress_frames tk (?dctx, sd0, False) =
     Some (if streamChecksum (flg D) \<noteq> 0
           then (ctx_emit (ctx_skip ?dctx (length (remaining (readCtx ?dctx))))
                   (concat (map (block_content (decompress ?dctx)
                      (getBlocksize (blockMaximumSize (bd D)))) bs)))
                  \<lparr>result := LZ4MT_RESULT_CANNOT_READ_STREAM_CHECKSUM\<rparr>
           else ctx_emit (ctx_skip ?dctx (length (remaining (readCtx ?dctx))))
                   (concat (map (block_content (decompress ?dctx)
                      (getBlocksize (blockMaximumSize (bd D)))) bs)), sd2)"
    by auto
  show "\<exists>ctx2 sd'. lz4mtDecompress tk (mem_context cmp dec m (input [])) sd0
             = Some (if streamChecksum (flg D) \<noteq> 0 then LZ4MT_RESULT_CANNOT_READ_STREAM_CHECKSUM
                     else LZ4MT_RESULT_OK, ctx2, sd')
           \<and> writeCtx ctx2 = out"
  proof (cases "streamChecksum (flg D) \<noteq> 0")
    case True
    with fr have "lz4mtDecompress_frames tk (?dctx, sd0, False) =
       Some ((ctx_emit (ctx_skip ?dctx (length (remaining (readCtx ?dctx)))) out)
                  \<lparr>result := LZ4MT_RESULT_CANNOT_READ_STREAM_CHECKSUM\<rparr>, sd2)"
      by (simp add: out B)
    from lz4mtDecompress_frames_result[OF _ this] True show ?thesis by simp
  next
    case False
    with fr have "lz4mtDecompress_frames tk (?dctx, sd0, False) =
       Some (ctx_emit (ctx_skip ?dctx (length (remaining (readCtx ?dctx)))) out, sd2)"
      by (simp add: out B)
    from lz4mtDecompress_frames_result[OF _ this] False show ?thesis by simp
  qed
qed

text \<open>
  A header, one stored block of three bytes, and then: two stray bytes; a size word
  for five bytes and two of them; nothing; and, with block checksums on, a size word
  for two bytes, the two bytes and one byte of their checksum.
\<close>

theorem truncated_block_size_witness:
  "(\<exists>ctx2 sd'.
      lz4mtDecompress no_tasks
        (mem_context store_compress store_decompress LZ4MT_MODE_SEQUENTIAL
           (lz4mtCompress_header lz4mtInitStreamDescriptor
              @ concat (map (\<lambda>b. block_record 0 (fst b) (snd b)) [(True, [1, 2, 3])]) @ [9, 9]))
        lz4mtInitStreamDescriptor
      = Some (LZ4MT_RESULT_CANNOT_READ_BLOCK_SIZE, ctx2, sd')
    \<and> writeCtx ctx2 = [1, 2, 3])
   \<and> (\<exists>ctx2 sd'.
      lz4mtDecompress no_tasks
        (mem_context store_compress store_decompress LZ4MT_MODE_SEQUENTIAL
           (lz4mtCompress_header lz4mtInitStreamDescriptor
              @ concat (map (\<lambda>b. block_record 0 (fst b) (snd b)) [(True, [1, 2, 3])])
              @ storeU32 0x80000005 @ [1, 2]))
        lz4mtInitStreamDescriptor
      = Some (LZ4MT_RESULT_CANNOT_READ_BLOCK_DATA, ctx2, sd')
    \<and> writeCtx ctx2 = [1, 2, 3])
   \<and> (\<exists>ctx2 sd'.
      lz4mtDecompress no_tasks
        (mem_context store_compress store_decompress LZ4MT_MODE_SEQUENTIAL
           (lz4mtCompress_header lz4mtInitStreamDescriptor
              @ concat (map (\<lambda>b. block_record 0 (fst b) (snd b)) [(True, [1, 2, 3])]) @ []))
        lz4mtInitStreamDescriptor
      = Some (LZ4MT_RESULT_CANNOT_READ_STREAM_CHECKSUM, ctx2, sd')
    \<and> writeCtx ctx2 = [1, 2, 3])
   \<and> (\<exists>ctx2 sd'.
      lz4mtDecompress no_tasks
        (mem_context store_compress store_decompress LZ4MT_MODE_SEQUENTIAL
           (lz4mtCompress_header
              (lz4mtInitStreamDescriptor
                 \<lparr>flg := \<lparr>presetDictionary = 0, reserved1 = 0, streamChecksum = 1,
                           streamSize = 0, blockChecksum = 1, blockIndependance = 1,
                           versionNumber = 1\<rparr>\<rparr>)
              @ concat (map (\<lambda>b. block_record 4 (fst b) (snd b)) [(True, [1, 2, 3])])
              @ storeU32 0x80000002 @ [1, 2] @ [7]))
        lz4mtInitStreamDescriptor
      = Some (LZ4MT_RESULT_CANNOT_READ_BLOCK_CHECKSUM, ctx2, sd')
    \<and> writeCtx ctx2 = [1, 2, 3])"
proof -
  let ?D = "lz4mtInitStreamDescriptor
                 \<lparr>flg := \<lparr>presetDictionary = 0, reserved1 = 0, streamChecksum = 1,
                           streamSize = 0, blockChecksum = 1, blockIndependance = 1,
                           versionNumber = 1\<rparr>\<rparr>"
  have vD: "validateStreamDescriptor ?D = LZ4MT_RESULT_OK"
    by (simp add: validateStreamDescriptor_def lz4mtInitStreamDescriptor_def
        LZ4S_BLOCKSIZEID_DEFAULT_def)
  have fbD: "flags_are_bits ?D" by (simp add: flags_are_bits_def)
  have BD: "(4194304 :: int) = getBlocksize (blockMaximumSize (bd ?D))"
    by (simp add: lz4mtInitStreamDescriptor_def LZ4S_BLOCKSIZEID_DEFAULT_def getBlocksize_def)
  have cD: "(4 :: int) = (if blockChecksum (flg ?D) \<noteq> 0 then 4 else 0)" by simp
  have q3: "blockChecksum (flg ?D) \<noteq> 0 \<and> (0x80000002 :: u32) \<noteq> LZ4S_EOS
      \<and> int (length [1, 2 :: byte]) = uint ((0x80000002 :: u32) AND 0x7FFFFFFF)
      \<and> length [7 :: byte] < 4"
    by (simp add: LZ4S_EOS_def)
  have v: "validateStreamDescriptor lz4mtInitStreamDescriptor = LZ4MT_RESULT_OK"
    by (simp add: validateStreamDescriptor_def lz4mtInitStreamDescriptor_def
        LZ4S_BLOCKSIZEID_DEFAULT_def)
  have fb: "flags_are_bits lz4mtInitStreamDescriptor"
    by (simp add: flags_are_bits_def lz4mtInitStreamDescriptor_def)
  have seq: "LZ4MT_MODE_SEQUENTIAL AND LZ4MT_MODE_SEQUENTIAL \<noteq> 0"
    by (simp add: LZ4MT_MODE_SEQUENTIAL_def)
  have B: "(4194304 :: int) = getBlocksize (blockMaximumSize (bd lz4mtInitStreamDescriptor))"
    by (simp add: lz4mtInitStreamDescriptor_def LZ4S_BLOCKSIZEID_DEFAULT_def getBlocksize_def)
  have c: "(0 :: int) = (if blockChecksum (flg lz4mtInitStreamDescriptor) \<noteq> 0 then 4 else 0)"
    by (simp add: lz4mtInitStreamDescriptor_def)
  have bo: "\<forall>b \<in> set [(True, [1, 2, 3 :: byte])]. block_ok store_decompress 4194304 b"
    by (simp add: block_ok_def)
  have out: "[1, 2, 3] = concat (map (block_content store_decompress 4194304) [(True, [1, 2, 3])])"
    by (simp add: block_content_def)
  have sc: "streamChecksum (flg lz4mtInitStreamDescriptor) \<noteq> 0"
    by (simp add: lz4mtInitStreamDescriptor_def)
  note t = truncated_block_size[OF v fb seq B c bo refl out,
      of no_tasks store_compress lz4mtInitStreamDescriptor]
  have q1: "[9, 9 :: byte] \<noteq> [] \<and> length [9, 9 :: byte] < 4" by simp
  have q2: "(0x80000005 :: u32) \<noteq> LZ4S_EOS
      \<and> int (length [1, 2 :: byte]) < uint ((0x80000005 :: u32) AND 0x7FFFFFFF)"
    by (simp add: LZ4S_EOS_def)
  note tD = truncated_block_size[OF vD fbD seq BD cD bo refl out,
      of no_tasks store_compress lz4mtInitStreamDescriptor]
  from conjunct1[OF t, THEN spec, THEN mp, OF q1]
    conjunct1[OF conjunct2[OF t], THEN spec, THEN spec, THEN mp, OF q2]
    conjunct2[OF conjunct2[OF conjunct2[OF t]]] sc
    conjunct1[OF conjunct2[OF conjunct2[OF tD]], THEN spec, THEN spec, THEN spec, THEN mp, OF q3]
  show ?thesis by simp
qed

text \<open>
  The claim as stated fails. An input cut inside a block payload (a valid header, the
  size word of a stored block of 5 bytes, 2 bytes) reads no EOS word and returns
  CannotReadBlockData, in either mode: no task has been launched. An input cut behind
  the header of a frame without stream checksum, read in sequential mode, reads no EOS
  word either and returns OK.
\<close>

theorem truncated_block_size_counterexample:
  "(\<forall>tk m. map_option (\<lambda>(r, c, sd). (r, writeCtx c))
       (lz4mtDecompress tk
          (mem_context store_compress store_decompress m
             [4, 34, 77, 24, 96, 112, 115, 5, 0, 0, 128, 1, 2])
          lz4mtInitStreamDescriptor)
     = Some (LZ4MT_RESULT_CANNOT_READ_BLOCK_DATA, []))
   \<and> LZ4MT_RESULT_CANNOT_READ_BLOCK_DATA \<noteq> LZ4MT_RESULT_CANNOT_READ_BLOCK_SIZE
   \<and> map_option (\<lambda>(r, c, sd). (r, writeCtx c))
       (lz4mtDecompress no_tasks
          (mem_context store_compress store_decompress LZ4MT_MODE_SEQUENTIAL
             [4, 34, 77, 24, 96, 112, 115])
          lz4mtInitStreamDescriptor)
     = Some (LZ4MT_RESULT_OK, [])
   \<and> LZ4MT_RESULT_OK \<noteq> LZ4MT_RESULT_CANNOT_READ_BLOCK_SIZE"
proof (intro conjI allI)
  fix tk :: "(mem_reader, byte list) async_tasks" and m
  let ?ctx = "mem_context store_compress store_decompress m
             [4, 34, 77, 24, 96, 112, 115, 5, 0, 0, 128, 1, 2]"
  let ?sd0 = lz4mtInitStreamDescriptor
  have rem: "remaining (readCtx ?ctx) = storeU32 LZ4S_MAGICNUMBER @ [96, 112] @ [] @ [115]
      @ [5, 0, 0, 128, 1, 2]"
    by (simp add: storeU32_def LZ4S_MAGICNUMBER_def)
  have v: "validateStreamDescriptor (?sd0\<lparr>flg := charToFlg 96, bd := charToBc 112\<rparr>) = LZ4MT_RESULT_OK"
    by (simp add: validateStreamDescriptor_def charToFlg_def charToBc_def)
  have le: "length ([] :: byte list) = (if streamSize (charToFlg 96) \<noteq> 0 then 8 else 0)"
    by (simp add: charToFlg_def)
  have hc: "(115 :: byte) = ucast (getCheckBits_FromXXH (XXH32 ([96, 112] @ []) LZ4S_CHECKSUM_SEED))"
    by (simp add: getCheckBits_FromXXH_def xxh_eval)
  let ?H = "ctx_skip ?ctx (7 + length ([] :: byte list))"
  have remH: "remaining (readCtx ?H) = storeU32 0x80000005 @ [1, 2]"
    by (simp add: storeU32_def)
  have sz: "sint ((0x80000005 :: u32) AND NOT incompMask) = 5"
    by (simp add: incompMask_def)
  have blocks: "lz4mtDecompress_blocks tk (getBlocksize (blockMaximumSize (charToBc 112)))
          (if blockChecksum (charToFlg 96) \<noteq> 0 then 4 else 0)
          (0 \<noteq> streamChecksum (charToFlg 96))
          (0 \<noteq> (mode ?ctx AND LZ4MT_MODE_SEQUENTIAL))
          (?H, False, Xxh32_init LZ4S_CHECKSUM_SEED, [])
      = Some ((ctx_skip ?H (4 + nat (sint ((0x80000005 :: u32) AND NOT incompMask))))
               \<lparr>result := LZ4MT_RESULT_CANNOT_READ_BLOCK_DATA\<rparr>, True,
              Xxh32_init LZ4S_CHECKSUM_SEED, [])"
    by (rule decompress_blocks_short_data[OF _ _ remH])
      (simp_all add: LZ4S_EOS_def sz)
  have io: "mem_io ?ctx" and ok: "\<not> error ?ctx" by simp_all
  note fh = decompress_frames_header[OF io ok rem v le hc refl]
  have "lz4mtDecompress_frames tk (?ctx, ?sd0, False) =
      Some ((ctx_skip ?H (4 + nat (sint ((0x80000005 :: u32) AND NOT incompMask))))
               \<lparr>result := LZ4MT_RESULT_CANNOT_READ_BLOCK_DATA\<rparr>,
            ?sd0\<lparr>flg := charToFlg 96, bd := charToBc 112,
               streamSizeValue := (if streamSize (charToFlg 96) \<noteq> 0 then loadU64 ([] @ [115])
                              else streamSizeValue ?sd0)\<rparr>)"
    unfolding fh blocks
    by (simp add: lz4mtDecompress_join_def trailer_error decompress_frames_done
        split del: if_split cong: if_cong)
  from lz4mtDecompress_frames_result[OF _ this]
  show "map_option (\<lambda>(r, c, sd). (r, writeCtx c)) (lz4mtDecompress tk ?ctx ?sd0)
     = Some (LZ4MT_RESULT_CANNOT_READ_BLOCK_DATA, [])"
    by simp
next
  let ?ctx = "mem_context store_compress store_decompress LZ4MT_MODE_SEQUENTIAL
             [4, 34, 77, 24, 96, 112, 115]"
  let ?sd0 = lz4mtInitStreamDescriptor
  have rem: "remaining (readCtx ?ctx) = storeU32 LZ4S_MAGICNUMBER @ [96, 112] @ [] @ [115]
      @ concat (map (\<lambda>b. block_record 0 (fst b) (snd b)) []) @ []"
    by (simp add: storeU32_def LZ4S_MAGICNUMBER_def)
  have v: "validateStreamDescriptor (?sd0\<lparr>flg := charToFlg 96, bd := charToBc 112\<rparr>) = LZ4MT_RESULT_OK"
    by (simp add: validateStreamDescriptor_def charToFlg_def charToBc_def)
  have le: "length ([] :: byte list) = (if streamSize (charToFlg 96) \<noteq> 0 then 8 else 0)"
    by (simp add: charToFlg_def)
  have hc: "(115 :: byte) = ucast (getCheckBits_FromXXH (XXH32 ([96, 112] @ []) LZ4S_CHECKSUM_SEED))"
    by (simp add: getCheckBits_FromXXH_def xxh_eval)
  have c: "(0 :: int) = (if blockChecksum (charToFlg 96) \<noteq> 0 then 4 else 0)"
    by (simp add: charToFlg_def)
  have seq: "mode ?ctx AND LZ4MT_MODE_SEQUENTIAL \<noteq> 0"
    by (simp add: LZ4MT_MODE_SEQUENTIAL_def)
  have io: "mem_io ?ctx" and ok: "\<not> error ?ctx" by simp_all
  have "lz4mtDecompress_frames no_tasks (?ctx, ?sd0, False) =
     Some (if streamChecksum (charToFlg 96) \<noteq> 0
           then (ctx_emit (ctx_skip ?ctx (length (remaining (readCtx ?ctx)))) [])
                  \<lparr>result := LZ4MT_RESULT_CANNOT_READ_STREAM_CHECKSUM\<rparr>
           else ctx_emit (ctx_skip ?ctx (length (remaining (readCtx ?ctx)))) [],
           ?sd0\<lparr>flg := charToFlg 96, bd := charToBc 112,
               streamSizeValue := (if streamSize (charToFlg 96) \<noteq> 0 then loadU64 ([] @ [115])
                              else streamSizeValue ?sd0)\<rparr>)"
    by (rule decompress_frame_boundary[OF io ok seq rem v le hc refl c _ _ refl]) simp_all
  then have "lz4mtDecompress_frames no_tasks (?ctx, ?sd0, False) =
     Some (ctx_skip ?ctx (length (remaining (readCtx ?ctx))),
           ?sd0\<lparr>flg := charToFlg 96, bd := charToBc 112,
               streamSizeValue := (if streamSize (charToFlg 96) \<noteq> 0 then loadU64 ([] @ [115])
                              else streamSizeValue ?sd0)\<rparr>)"
    by (simp add: charToFlg_def)
  from lz4mtDecompress_frames_result[OF _ this]
  show "map_option (\<lambda>(r, c, sd). (r, writeCtx c)) (lz4mtDecompress no_tasks ?ctx ?sd0)
     = Some (LZ4MT_RESULT_OK, [])"
    by simp
qed simp_all

subsection \<open>The stream checksum and the header checksum\<close>

lemma compress_loop_chunks:
  assumes "read ctx = chunk_read" "readEof ctx = chunk_readEof" "write' ctx = mem_write"
    and "\<not> error ctx" 
    and "\<forall>x \<in> set (readCtx ctx). x \<noteq> [] \<and> int (length x) \<le> B
           \<and> compress_contract (compress ctx) x"
  shows "lz4mtCompress_loop B c s ctx xxh =
     Some (ctx_emit (ctx\<lparr>readCtx := []\<rparr>)
             (concat (map (compressed_record (compress ctx) c) (readCtx ctx))),
           if s then xxh\<lparr>xxh_input := xxh_input xxh @ concat (readCtx ctx)\<rparr> else xxh)"
  using assms
proof (induction "readCtx ctx" arbitrary: ctx xxh)
  case Nil
  have "ctx\<lparr>readCtx := []\<rparr> = ctx" using Nil(1) by simp
  with Nil show ?case
    by (subst lz4mtCompress_loop.simps) (simp add: ctx_readEof_def chunk_readEof_def)
next
  case (Cons x xs)
  let ?ctx1 = "ctx\<lparr>readCtx := xs\<rparr>"
  let ?ctx2 = "ctx_emit ?ctx1 (compressed_record (compress ctx) c x)"
  from Cons(2) have rc: "readCtx ctx = x # xs" by simp
  from Cons.prems(5) rc have x: "x \<noteq> []" "int (length x) \<le> B"
    "compress_contract (compress ctx) x" by simp_all
  have tk: "take (nat B) x = x" "drop (nat B) x = []" using x(2) by simp_all
  have rd: "ctx_read ctx B = (x, ?ctx1)"
    by (simp add: ctx_read_def Cons.prems(1) chunk_read_def rc tk)
  have ne: "\<not> ctx_readEof ctx"
    by (simp add: ctx_readEof_def Cons.prems(2) chunk_readEof_def rc)
  have f: "lz4mtCompress_f c ?ctx1 x = ?ctx2"
    using compress_f_mem[of ?ctx1 x c] Cons.prems(3,4) x(3) by (simp add: error_def)
  have step: "lz4mtCompress_loop B c s ctx xxh =
      lz4mtCompress_loop B c s ?ctx2 (if s then xxh\<lparr>xxh_input := xxh_input xxh @ x\<rparr> else xxh)"
    by (subst lz4mtCompress_loop.simps) (simp add: ne rd f Xxh32_update_def Let_def)
  have IH: "lz4mtCompress_loop B c s ?ctx2 (if s then xxh\<lparr>xxh_input := xxh_input xxh @ x\<rparr> else xxh) =
     Some (ctx_emit (?ctx2\<lparr>readCtx := []\<rparr>)
             (concat (map (compressed_record (compress ?ctx2) c) (readCtx ?ctx2))),
           if s then (if s then xxh\<lparr>xxh_input := xxh_input xxh @ x\<rparr> else xxh)
              \<lparr>xxh_input := xxh_input (if s then xxh\<lparr>xxh_input := xxh_input xxh @ x\<rparr> else xxh)
                   @ concat (readCtx ?ctx2)\<rparr>
           else (if s then xxh\<lparr>xxh_input := xxh_input xxh @ x\<rparr> else xxh))"
    by (rule Cons(1)) (use Cons.prems rc in \<open>simp_all add: error_def\<close>)
  show ?case
    unfolding step IH by (simp add: rc ctx_emit_def)
qed

lemma lz4mtCompress_via_loop:
  assumes wr: "write' ctx = mem_write" and ok: "\<not> error ctx"
    and valid: "validateStreamDescriptor sd = LZ4MT_RESULT_OK"
    and asrt: "streamSize (flg sd) = 0 \<or> streamSizeValue sd \<noteq> 0"
    and loop: "lz4mtCompress_loop (getBlocksize (blockMaximumSize (bd sd)))
        (if blockChecksum (flg sd) \<noteq> 0 then 4 else 0) (0 \<noteq> streamChecksum (flg sd))
        (ctx_emit ctx (lz4mtCompress_header sd)) (Xxh32_init LZ4S_CHECKSUM_SEED) = Some (ctx2, xxh2)"
    and wr2: "write' ctx2 = mem_write" and ok2: "\<not> error ctx2"
  shows "lz4mtCompress ctx sd =
     Some (LZ4MT_RESULT_OK,
           ctx_emit ctx2 (storeU32 LZ4S_EOS
             @ (if streamChecksum (flg sd) \<noteq> 0 then storeU32 (Xxh32_digest xxh2) else [])))"
proof -
  let ?d = "lz4mtCompress_header sd"
  have hw: "ctx_write ctx ?d (int (length ?d)) = (int (length ?d), ctx_emit ctx ?d)"
    by (simp add: ctx_write_mem[OF wr])
  have na: "\<not> (streamSize (flg sd) \<noteq> 0 \<and> streamSizeValue sd = 0)" using asrt by auto
  have wr3: "write' (ctx_emit ctx2 (storeU32 LZ4S_EOS)) = mem_write" using wr2 by simp
  have ok3: "\<not> error (ctx_emit ctx2 (storeU32 LZ4S_EOS))" using ok2 by simp
  have "lz4mtCompress ctx sd =
     Option.bind (lz4mtCompress_loop (getBlocksize (blockMaximumSize (bd sd)))
        (if blockChecksum (flg sd) \<noteq> 0 then 4 else 0) (0 \<noteq> streamChecksum (flg sd))
        (ctx_emit ctx ?d) (Xxh32_init LZ4S_CHECKSUM_SEED))
       (\<lambda>(ctx2, xxhStream).
           let (ok, ctx3) = writeU32 ctx2 LZ4S_EOS
           in if \<not> ok then Some (LZ4MT_RESULT_CANNOT_WRITE_EOS, ctx3)
              else if 0 \<noteq> streamChecksum (flg sd)
              then (let (ok', ctx4) = writeU32 ctx3 (Xxh32_digest xxhStream)
                    in if \<not> ok'
                       then Some (LZ4MT_RESULT_CANNOT_WRITE_STREAM_CHECKSUM, ctx4)
                       else Some (LZ4MT_RESULT_OK, ctx4))
              else Some (LZ4MT_RESULT_OK, ctx3))"
    unfolding lz4mtCompress_def using valid
    by (simp add: Let_def hw na split del: if_split cong: if_cong)
  also have "\<dots> = Some (LZ4MT_RESULT_OK,
           ctx_emit ctx2 (storeU32 LZ4S_EOS
             @ (if streamChecksum (flg sd) \<noteq> 0 then storeU32 (Xxh32_digest xxh2) else [])))"
    unfolding loop
    by (cases "0 \<noteq> streamChecksum (flg sd)")
      (simp_all add: writeU32_mem[OF wr2 ok2] writeU32_mem[OF wr3 ok3])
  finally show ?thesis .
qed

lemma chunk_context_simps [simp]:
  "read (chunk_context cmp dec m ps) = chunk_read"
  "readEof (chunk_context cmp dec m ps) = chunk_readEof"
  "write' (chunk_context cmp dec m ps) = mem_write"
  "\<not> error (chunk_context cmp dec m ps)"
  "readCtx (chunk_context cmp dec m ps) = ps"
  "writeCtx (chunk_context cmp dec m ps) = []"
  "compress (chunk_context cmp dec m ps) = cmp"
  "result (chunk_context cmp dec m ps) = LZ4MT_RESULT_OK"
  by (simp_all add: chunk_context_def error_def)

lemma lz4mtCompress_chunks:
  assumes v: "validateStreamDescriptor D = LZ4MT_RESULT_OK"
    and asrt: "streamSize (flg D) = 0 \<or> streamSizeValue D \<noteq> 0"
    and ps: "\<forall>x \<in> set pieces. x \<noteq> [] \<and> int (length x) \<le> getBlocksize (blockMaximumSize (bd D))
           \<and> compress_contract cmp x"
  shows "\<exists>ctx'. lz4mtCompress (chunk_context cmp dec m pieces) D = Some (LZ4MT_RESULT_OK, ctx')
     \<and> writeCtx ctx' = lz4mtCompress_header D
          @ concat (map (compressed_record cmp (if blockChecksum (flg D) \<noteq> 0 then 4 else 0)) pieces)
          @ storeU32 LZ4S_EOS
          @ (if streamChecksum (flg D) \<noteq> 0
             then storeU32 (XXH32 (concat pieces) LZ4S_CHECKSUM_SEED) else [])"
proof -
  let ?ctx = "chunk_context cmp dec m pieces"
  let ?ctx1 = "ctx_emit ?ctx (lz4mtCompress_header D)"
  let ?c = "if blockChecksum (flg D) \<noteq> 0 then 4 else 0 :: int"
  let ?s = "0 \<noteq> streamChecksum (flg D)"
  let ?x0 = "Xxh32_init LZ4S_CHECKSUM_SEED"
  have loop: "lz4mtCompress_loop (getBlocksize (blockMaximumSize (bd D))) ?c ?s ?ctx1 ?x0 =
     Some (ctx_emit (?ctx1\<lparr>readCtx := []\<rparr>)
             (concat (map (compressed_record (compress ?ctx1) ?c) (readCtx ?ctx1))),
           if ?s then ?x0\<lparr>xxh_input := xxh_input ?x0 @ concat (readCtx ?ctx1)\<rparr> else ?x0)"
    by (rule compress_loop_chunks) (use ps in simp_all)
  have "lz4mtCompress ?ctx D =
     Some (LZ4MT_RESULT_OK,
           ctx_emit (ctx_emit (?ctx1\<lparr>readCtx := []\<rparr>)
             (concat (map (compressed_record (compress ?ctx1) ?c) (readCtx ?ctx1))))
            (storeU32 LZ4S_EOS
             @ (if streamChecksum (flg D) \<noteq> 0
                then storeU32 (Xxh32_digest
                  (if ?s then ?x0\<lparr>xxh_input := xxh_input ?x0 @ concat (readCtx ?ctx1)\<rparr> else ?x0))
                else [])))"
    by (rule lz4mtCompress_via_loop[OF _ _ v asrt loop]) (simp_all add: error_def ctx_emit_def)
  then show ?thesis
    by (auto simp add: ctx_emit_def Xxh32_digest_init)
qed

lemma readU32_result: "\<not> error ctx \<Longrightarrow> \<not> error (snd (readU32 ctx)) \<Longrightarrow>
    lz4mtDecompress_trailer True ctx xxh =
      (Xxh32_digest xxh = fst (readU32 ctx),
       if Xxh32_digest xxh = fst (readU32 ctx) then snd (readU32 ctx)
       else (snd (readU32 ctx))\<lparr>result := LZ4MT_RESULT_STREAM_CHECKSUM_MISMATCH\<rparr>)"
  by (cases "readU32 ctx") (simp add: lz4mtDecompress_trailer_def setResult_OK)

text \<open>
  C2. Let stream checksums be on in a descriptor \<open>D\<close> that \<open>validateStreamDescriptor\<close>
  accepts.
  \<^item> Whatever pieces (each at most a block long) the input arrives in, \<open>lz4mtCompress\<close>
    returns OK and writes, right after the EOS word, the xxHash32 with seed 0 of the
    concatenation of the pieces: the digest does not depend on the partition.
  \<^item> The same for an input \<open>S\<close> in memory, cut into blocks of the block maximum size.
  \<^item> For arbitrary callbacks and in either mode, the trailer step (lines 649--659, run
    by the calling thread after the join) with no error before and a trailer word that
    could be read leaves the frame loop with StreamChecksumMismatch iff the hasher's
    digest differs from the word read.
  \<^item> If the flags of \<open>D\<close> are 0 or 1 (so that the header says what \<open>D\<close> says),
    \<open>lz4mtDecompress\<close> in sequential mode on a frame of \<open>D\<close> with block records
    the decoder takes without an error and a trailer \<open>t\<close> writes the decoded blocks
    and returns StreamChecksumMismatch if the xxHash32 of what it wrote differs from
    \<open>t\<close>, and OK otherwise.
\<close>

theorem stream_checksum_digest:
  assumes v: "validateStreamDescriptor D = LZ4MT_RESULT_OK"
    and sc: "streamChecksum (flg D) \<noteq> 0"
    and asrt: "streamSize (flg D) = 0 \<or> streamSizeValue D \<noteq> 0"
    and B: "B = getBlocksize (blockMaximumSize (bd D))"
    and c: "c = (if blockChecksum (flg D) \<noteq> 0 then 4 else 0)"
  shows "(\<forall>pieces.
            (\<forall>x \<in> set pieces. x \<noteq> [] \<and> int (length x) \<le> B \<and> compress_contract cmp x) \<longrightarrow>
            (\<exists>ctx'. lz4mtCompress (chunk_context cmp dec m pieces) D = Some (LZ4MT_RESULT_OK, ctx')
               \<and> writeCtx ctx' = lz4mtCompress_header D
                    @ concat (map (compressed_record cmp c) pieces)
                    @ storeU32 LZ4S_EOS
                    @ storeU32 (XXH32 (concat pieces) LZ4S_CHECKSUM_SEED)))
     \<and> ((\<forall>src. int (length src) \<le> B \<longrightarrow> compress_contract cmp src) \<longrightarrow>
            (\<exists>ctx'. lz4mtCompress (mem_context cmp dec m S) D = Some (LZ4MT_RESULT_OK, ctx')
               \<and> writeCtx ctx' = lz4mtCompress_header D
                    @ concat (map (compressed_record cmp c) (blocks_of (nat B) S))
                    @ storeU32 LZ4S_EOS
                    @ storeU32 (XXH32 S LZ4S_CHECKSUM_SEED)))
     \<and> (flags_are_bits D \<longrightarrow>
         (\<forall>tk m' bs t.
            m' AND LZ4MT_MODE_SEQUENTIAL \<noteq> 0 \<and> (\<forall>b \<in> set bs. block_ok dec B b) \<longrightarrow>
            (\<exists>ctx2 sd'.
                lz4mtDecompress tk
                  (mem_context cmp dec m'
                     (lz4mtCompress_header D
                      @ concat (map (\<lambda>b. block_record c (fst b) (snd b)) bs)
                      @ storeU32 LZ4S_EOS @ storeU32 t))
                  sd0
                = Some (if XXH32 (concat (map (block_content dec B) bs)) LZ4S_CHECKSUM_SEED = t
                        then LZ4MT_RESULT_OK else LZ4MT_RESULT_STREAM_CHECKSUM_MISMATCH,
                        ctx2, sd')
              \<and> writeCtx ctx2 = concat (map (block_content dec B) bs))))
     \<and> (\<forall>(ctx :: ('r, 'w) Lz4MtContext) xxh.
            \<not> error ctx \<and> \<not> error (snd (readU32 ctx)) \<longrightarrow>
            lz4mtDecompress_trailer True ctx xxh =
              (Xxh32_digest xxh = fst (readU32 ctx),
               if Xxh32_digest xxh = fst (readU32 ctx) then snd (readU32 ctx)
               else (snd (readU32 ctx))\<lparr>result := LZ4MT_RESULT_STREAM_CHECKSUM_MISMATCH\<rparr>))"
proof (intro conjI allI impI)
  fix pieces
  assume ps: "\<forall>x \<in> set pieces. x \<noteq> [] \<and> int (length x) \<le> B \<and> compress_contract cmp x"
  from lz4mtCompress_chunks[OF v asrt ps[unfolded B], of dec m] sc
  show "\<exists>ctx'. lz4mtCompress (chunk_context cmp dec m pieces) D = Some (LZ4MT_RESULT_OK, ctx')
               \<and> writeCtx ctx' = lz4mtCompress_header D
                    @ concat (map (compressed_record cmp c) pieces)
                    @ storeU32 LZ4S_EOS
                    @ storeU32 (XXH32 (concat pieces) LZ4S_CHECKSUM_SEED)"
    by (simp add: c)
next
  assume cc: "\<forall>src. int (length src) \<le> B \<longrightarrow> compress_contract cmp src"
  let ?ctx0 = "mem_context cmp dec m S"
  have Bp: "0 < getBlocksize (blockMaximumSize (bd D))"
    using getBlocksize_range(1) validate_OK_fields(5,6)[OF v] by simp
  have cc': "\<forall>src \<in> set (blocks_of (nat (getBlocksize (blockMaximumSize (bd D))))
      (remaining (readCtx ?ctx0))). compress_contract (compress ?ctx0) src"
  proof
    fix src assume "src \<in> set (blocks_of (nat (getBlocksize (blockMaximumSize (bd D))))
      (remaining (readCtx ?ctx0)))"
    from blocks_of_length_le[OF this] Bp
    have "int (length src) \<le> getBlocksize (blockMaximumSize (bd D))" by linarith
    with cc show "compress_contract (compress ?ctx0) src" by (simp add: B)
  qed
  have "lz4mtCompress ?ctx0 D = Some (LZ4MT_RESULT_OK,
      ctx_emit (ctx_skip ?ctx0 (length (remaining (readCtx ?ctx0))))
        (frame_bytes (compress ?ctx0) D (remaining (readCtx ?ctx0))))"
    by (rule lz4mtCompress_mem[OF _ _ v asrt cc']) simp_all
  then show "\<exists>ctx'. lz4mtCompress (mem_context cmp dec m S) D = Some (LZ4MT_RESULT_OK, ctx')
               \<and> writeCtx ctx' = lz4mtCompress_header D
                    @ concat (map (compressed_record cmp c) (blocks_of (nat B) S))
                    @ storeU32 LZ4S_EOS
                    @ storeU32 (XXH32 S LZ4S_CHECKSUM_SEED)"
    using sc by (simp add: frame_bytes_def B c)
next
  fix tk :: "(mem_reader, byte list) async_tasks" and m' bs t
  assume fb: "flags_are_bits D"
  assume a: "m' AND LZ4MT_MODE_SEQUENTIAL \<noteq> 0 \<and> (\<forall>b \<in> set bs. block_ok dec B b)"
  then have seq: "m' AND LZ4MT_MODE_SEQUENTIAL \<noteq> 0"
    and bo: "\<forall>b \<in> set bs. block_ok dec B b"
    by simp_all
  let ?dctx = "mem_context cmp dec m'
                     (lz4mtCompress_header D
                      @ concat (map (\<lambda>b. block_record c (fst b) (snd b)) bs)
                      @ storeU32 LZ4S_EOS @ storeU32 t)"
  have rem: "remaining (readCtx ?dctx) = lz4mtCompress_header D
        @ concat (map (\<lambda>b. block_record (if blockChecksum (flg D) \<noteq> 0 then 4 else 0) (fst b) (snd b)) bs)
        @ storeU32 LZ4S_EOS
        @ (if streamChecksum (flg D) \<noteq> 0 then storeU32 t else [])"
    using sc by (simp add: c)
  have bo': "\<forall>b \<in> set bs. block_ok (decompress ?dctx) (getBlocksize (blockMaximumSize (bd D))) b"
    using bo by (simp add: B)
  have io: "mem_io ?dctx" and ok: "\<not> error ?dctx" by simp_all
  have seq': "mode ?dctx AND LZ4MT_MODE_SEQUENTIAL \<noteq> 0" using seq by simp
  from decompress_frame_of_descriptor[OF io ok seq' v fb rem bo' refl, of tk sd0]
  obtain sd2 where fr: "lz4mtDecompress_frames tk (?dctx, sd0, False) =
     Some (if streamChecksum (flg D) \<noteq> 0
              \<and> XXH32 (concat (map (block_content (decompress ?dctx)
                   (getBlocksize (blockMaximumSize (bd D)))) bs)) LZ4S_CHECKSUM_SEED \<noteq> t
           then (ctx_emit (ctx_skip ?dctx (length (remaining (readCtx ?dctx))))
                   (concat (map (block_content (decompress ?dctx)
                   (getBlocksize (blockMaximumSize (bd D)))) bs)))
                  \<lparr>result := LZ4MT_RESULT_STREAM_CHECKSUM_MISMATCH\<rparr>
           else ctx_emit (ctx_skip ?dctx (length (remaining (readCtx ?dctx))))
                  (concat (map (block_content (decompress ?dctx)
                   (getBlocksize (blockMaximumSize (bd D)))) bs)), sd2)"
    by auto
  from lz4mtDecompress_frames_result[OF ok fr]
  show "\<exists>ctx2 sd'.
                lz4mtDecompress tk ?dctx sd0
                = Some (if XXH32 (concat (map (block_content dec B) bs)) LZ4S_CHECKSUM_SEED = t
                        then LZ4MT_RESULT_OK else LZ4MT_RESULT_STREAM_CHECKSUM_MISMATCH,
                        ctx2, sd')
              \<and> writeCtx ctx2 = concat (map (block_content dec B) bs)"
    using sc by (auto simp add: B)
next
  fix ctx :: "('r, 'w) Lz4MtContext" and xxh
  assume "\<not> error ctx \<and> \<not> error (snd (readU32 ctx))"
  then show "lz4mtDecompress_trailer True ctx xxh =
              (Xxh32_digest xxh = fst (readU32 ctx),
               if Xxh32_digest xxh = fst (readU32 ctx) then snd (readU32 ctx)
               else (snd (readU32 ctx))\<lparr>result := LZ4MT_RESULT_STREAM_CHECKSUM_MISMATCH\<rparr>)"
    using readU32_result by blast
qed

lemma drop8_bits: "i < 8 \<Longrightarrow> bit (ucast (drop_bit 8 (h :: u32)) :: byte) i = bit h (8 + i)"
  by (simp add: bit_simps)

text \<open>
  The frame of the input \<open>[1, 2], [3]\<close> arriving in two pieces, and the frame of a stored
  block \<open>[1, 2, 3]\<close> read back with the right and with a wrong trailer.
\<close>

theorem stream_checksum_digest_witness:
  "(\<exists>ctx'. lz4mtCompress
        (chunk_context store_compress store_decompress LZ4MT_MODE_SEQUENTIAL [[1, 2], [3]])
        lz4mtInitStreamDescriptor = Some (LZ4MT_RESULT_OK, ctx')
     \<and> writeCtx ctx' = lz4mtCompress_header lz4mtInitStreamDescriptor
          @ concat (map (compressed_record store_compress 0) [[1, 2], [3]])
          @ storeU32 LZ4S_EOS
          @ storeU32 (XXH32 (concat [[1, 2], [3]]) LZ4S_CHECKSUM_SEED))
   \<and> (\<exists>ctx2 sd'. lz4mtDecompress no_tasks
          (mem_context store_compress store_decompress LZ4MT_MODE_SEQUENTIAL
             (lz4mtCompress_header lz4mtInitStreamDescriptor
              @ concat (map (\<lambda>b. block_record 0 (fst b) (snd b)) [(True, [1, 2, 3])])
              @ storeU32 LZ4S_EOS @ storeU32 (XXH32 [1, 2, 3] LZ4S_CHECKSUM_SEED)))
          lz4mtInitStreamDescriptor
        = Some (LZ4MT_RESULT_OK, ctx2, sd')
      \<and> writeCtx ctx2 = [1, 2, 3])
   \<and> (\<exists>ctx2 sd'. lz4mtDecompress no_tasks
          (mem_context store_compress store_decompress LZ4MT_MODE_SEQUENTIAL
             (lz4mtCompress_header lz4mtInitStreamDescriptor
              @ concat (map (\<lambda>b. block_record 0 (fst b) (snd b)) [(True, [1, 2, 3])])
              @ storeU32 LZ4S_EOS @ storeU32 (XXH32 [1, 2, 3] LZ4S_CHECKSUM_SEED + 1)))
          lz4mtInitStreamDescriptor
        = Some (LZ4MT_RESULT_STREAM_CHECKSUM_MISMATCH, ctx2, sd')
      \<and> writeCtx ctx2 = [1, 2, 3])"
proof -
  have v: "validateStreamDescriptor lz4mtInitStreamDescriptor = LZ4MT_RESULT_OK"
    by (simp add: validateStreamDescriptor_def lz4mtInitStreamDescriptor_def
        LZ4S_BLOCKSIZEID_DEFAULT_def)
  have fb: "flags_are_bits lz4mtInitStreamDescriptor"
    by (simp add: flags_are_bits_def lz4mtInitStreamDescriptor_def)
  have sc: "streamChecksum (flg lz4mtInitStreamDescriptor) \<noteq> 0"
    by (simp add: lz4mtInitStreamDescriptor_def)
  have a: "streamSize (flg lz4mtInitStreamDescriptor) = 0
      \<or> streamSizeValue lz4mtInitStreamDescriptor \<noteq> 0"
    by (simp add: lz4mtInitStreamDescriptor_def)
  have B: "(4194304 :: int) = getBlocksize (blockMaximumSize (bd lz4mtInitStreamDescriptor))"
    by (simp add: lz4mtInitStreamDescriptor_def LZ4S_BLOCKSIZEID_DEFAULT_def getBlocksize_def)
  have c: "(0 :: int) = (if blockChecksum (flg lz4mtInitStreamDescriptor) \<noteq> 0 then 4 else 0)"
    by (simp add: lz4mtInitStreamDescriptor_def)
  have ps: "\<forall>x \<in> set [[1, 2], [3 :: byte]]. x \<noteq> [] \<and> int (length x) \<le> 4194304
      \<and> compress_contract store_compress x"
    by (simp add: compress_contract_store)
  have sq: "LZ4MT_MODE_SEQUENTIAL AND LZ4MT_MODE_SEQUENTIAL \<noteq> 0
      \<and> (\<forall>b \<in> set [(True, [1, 2, 3 :: byte])]. block_ok store_decompress 4194304 b)"
    by (simp add: LZ4MT_MODE_SEQUENTIAL_def block_ok_def)
  have out: "concat (map (block_content store_decompress 4194304) [(True, [1, 2, 3 :: byte])])
      = [1, 2, 3]"
    by (simp add: block_content_def)
  note t = stream_checksum_digest[OF v sc a B c,
      of store_compress store_decompress LZ4MT_MODE_SEQUENTIAL _ lz4mtInitStreamDescriptor]
  note d = conjunct1[OF conjunct2[OF conjunct2[OF t]], THEN mp, OF fb,
      THEN spec, THEN spec, THEN spec, THEN spec, THEN mp, OF sq]
  have ne: "XXH32 [1, 2, 3] LZ4S_CHECKSUM_SEED \<noteq> XXH32 [1, 2, 3] LZ4S_CHECKSUM_SEED + 1"
    by simp
  from conjunct1[OF t, THEN spec, THEN mp, OF ps]
    d[of no_tasks "XXH32 [1, 2, 3] LZ4S_CHECKSUM_SEED"]
    d[of no_tasks "XXH32 [1, 2, 3] LZ4S_CHECKSUM_SEED + 1"]
  show ?thesis
    unfolding out by (simp only: if_True if_False ne refl simp_thms)
qed

text \<open>
  C4. For a descriptor \<open>D\<close> that \<open>validateStreamDescriptor\<close> accepts, the header
  \<open>lz4mtCompress\<close> builds and writes is the magic number, the bytes FLG, BD and the
  optional stream size, and then one byte that is bits 8..15 of the xxHash32 (seed 0)
  of those descriptor bytes. The
  header reader, for arbitrary callbacks that deliver FLG and BD of an accepted
  descriptor and then the optional field and a checksum byte, accepts the header iff
  that byte is bits 8..15 of the xxHash32 over FLG up to the end of the optional
  field, and otherwise sets InvalidHeaderChecksum; \<open>lz4mtDecompress\<close> on an in-memory
  input with such a header and a wrong byte returns InvalidHeaderChecksum, in either
  mode.
\<close>

theorem header_checksum:
  assumes v: "validateStreamDescriptor D = LZ4MT_RESULT_OK"
    and asrt: "streamSize (flg D) = 0 \<or> streamSizeValue D \<noteq> 0"
    and cc: "\<forall>src. int (length src) \<le> getBlocksize (blockMaximumSize (bd D)) \<longrightarrow>
                compress_contract cmp src"
    and desc: "desc = [flgToChar (flg D), bdToChar (bd D)]
                 @ (if streamSize (flg D) \<noteq> 0 then storeU64 (streamSizeValue D) else [])"
  shows "lz4mtCompress_header D
           = storeU32 LZ4S_MAGICNUMBER @ desc
             @ [ucast (drop_bit 8 (XXH32 desc LZ4S_CHECKSUM_SEED))]
     \<and> (\<exists>ctx' hc body.
            lz4mtCompress (mem_context cmp dec m S) D = Some (LZ4MT_RESULT_OK, ctx')
          \<and> writeCtx ctx' = storeU32 LZ4S_MAGICNUMBER @ desc @ [hc] @ body
          \<and> hc = ucast (drop_bit 8 (XXH32 desc LZ4S_CHECKSUM_SEED))
          \<and> (\<forall>i < 8. bit hc i = bit (XXH32 desc LZ4S_CHECKSUM_SEED) (8 + i)))
     \<and> (\<forall>(ctx :: ('r, 'w) Lz4MtContext) ctx1 ctx2 sd0 fb bb ext hc.
            \<not> error ctx \<and> ctx_read ctx 2 = ([fb, bb], ctx1)
            \<and> validateStreamDescriptor (sd0\<lparr>flg := charToFlg fb, bd := charToBc bb\<rparr>)
                = LZ4MT_RESULT_OK
            \<and> ctx_read ctx1 (int (length ext) + 1) = (ext @ [hc], ctx2)
            \<and> length ext = (if streamSize (charToFlg fb) \<noteq> 0 then 8 else 0) \<longrightarrow>
            (fst (lz4mtDecompress_header ctx sd0)
               \<longleftrightarrow> hc = ucast (drop_bit 8 (XXH32 ([fb, bb] @ ext) LZ4S_CHECKSUM_SEED)))
            \<and> (result (fst (snd (lz4mtDecompress_header ctx sd0)))
                  = LZ4MT_RESULT_INVALID_HEADER_CHECKSUM
               \<longleftrightarrow> hc \<noteq> ucast (drop_bit 8 (XXH32 ([fb, bb] @ ext) LZ4S_CHECKSUM_SEED))))
     \<and> (\<forall>tk sd0 fb bb ext hc rest m'.
            validateStreamDescriptor (sd0\<lparr>flg := charToFlg fb, bd := charToBc bb\<rparr>)
                = LZ4MT_RESULT_OK
            \<and> length ext = (if streamSize (charToFlg fb) \<noteq> 0 then 8 else 0)
            \<and> hc \<noteq> ucast (drop_bit 8 (XXH32 ([fb, bb] @ ext) LZ4S_CHECKSUM_SEED)) \<longrightarrow>
            map_option fst
              (lz4mtDecompress tk
                 (mem_context cmp dec m'
                    (storeU32 LZ4S_MAGICNUMBER @ [fb, bb] @ ext @ [hc] @ rest)) sd0)
              = Some LZ4MT_RESULT_INVALID_HEADER_CHECKSUM)"
proof (intro conjI allI impI)
  let ?ctx0 = "mem_context cmp dec m S"
  let ?hc = "ucast (getCheckBits_FromXXH (XXH32 desc LZ4S_CHECKSUM_SEED)) :: byte"
  let ?body = "concat (map (compressed_record cmp (if blockChecksum (flg D) \<noteq> 0 then 4 else 0))
                 (blocks_of (nat (getBlocksize (blockMaximumSize (bd D)))) S))
     @ storeU32 LZ4S_EOS
     @ (if streamChecksum (flg D) \<noteq> 0 then storeU32 (XXH32 S LZ4S_CHECKSUM_SEED) else [])"
  have Bp: "0 < getBlocksize (blockMaximumSize (bd D))"
    using getBlocksize_range(1) validate_OK_fields(5,6)[OF v] by simp
  have cc': "\<forall>src \<in> set (blocks_of (nat (getBlocksize (blockMaximumSize (bd D))))
      (remaining (readCtx ?ctx0))). compress_contract (compress ?ctx0) src"
  proof
    fix src assume "src \<in> set (blocks_of (nat (getBlocksize (blockMaximumSize (bd D))))
      (remaining (readCtx ?ctx0)))"
    from blocks_of_length_le[OF this] Bp
    have "int (length src) \<le> getBlocksize (blockMaximumSize (bd D))" by linarith
    with cc show "compress_contract (compress ?ctx0) src" by simp
  qed
  have c1: "lz4mtCompress ?ctx0 D = Some (LZ4MT_RESULT_OK,
      ctx_emit (ctx_skip ?ctx0 (length (remaining (readCtx ?ctx0))))
        (frame_bytes (compress ?ctx0) D (remaining (readCtx ?ctx0))))"
    by (rule lz4mtCompress_mem[OF _ _ v asrt cc']) simp_all
  show "lz4mtCompress_header D
           = storeU32 LZ4S_MAGICNUMBER @ desc
             @ [ucast (drop_bit 8 (XXH32 desc LZ4S_CHECKSUM_SEED))]"
    unfolding compress_header_form[OF validate_OK_fields(2)[OF v]] desc
    by (simp add: checkbits_byte(1))
  have w: "frame_bytes cmp D S = storeU32 LZ4S_MAGICNUMBER @ desc @ [?hc] @ ?body"
    unfolding frame_bytes_def compress_header_form[OF validate_OK_fields(2)[OF v]] desc
    by simp
  show "\<exists>ctx' hc body.
            lz4mtCompress (mem_context cmp dec m S) D = Some (LZ4MT_RESULT_OK, ctx')
          \<and> writeCtx ctx' = storeU32 LZ4S_MAGICNUMBER @ desc @ [hc] @ body
          \<and> hc = ucast (drop_bit 8 (XXH32 desc LZ4S_CHECKSUM_SEED))
          \<and> (\<forall>i < 8. bit hc i = bit (XXH32 desc LZ4S_CHECKSUM_SEED) (8 + i))"
    using c1 w
    by (intro exI[of _ "ctx_emit (ctx_skip ?ctx0 (length (remaining (readCtx ?ctx0))))
        (frame_bytes (compress ?ctx0) D (remaining (readCtx ?ctx0)))"] exI[of _ ?hc]
        exI[of _ ?body]) (simp add: checkbits_byte(1) drop8_bits)
next
  fix ctx :: "('r, 'w) Lz4MtContext" and ctx1 ctx2 sd0 fb bb ext hc
  assume a: "\<not> error ctx \<and> ctx_read ctx 2 = ([fb, bb], ctx1)
            \<and> validateStreamDescriptor (sd0\<lparr>flg := charToFlg fb, bd := charToBc bb\<rparr>)
                = LZ4MT_RESULT_OK
            \<and> ctx_read ctx1 (int (length ext) + 1) = (ext @ [hc], ctx2)
            \<and> length ext = (if streamSize (charToFlg fb) \<noteq> 0 then 8 else 0)"
  then have ok: "\<not> error ctx" and r1: "ctx_read ctx 2 = ([fb, bb], ctx1)"
    and v': "validateStreamDescriptor (sd0\<lparr>flg := charToFlg fb, bd := charToBc bb\<rparr>)
                = LZ4MT_RESULT_OK"
    and r2: "ctx_read ctx1 (int (length ext) + 1) = (ext @ [hc], ctx2)"
    and le: "length ext = (if streamSize (charToFlg fb) \<noteq> 0 then 8 else 0)"
    by blast+
  note h = decompress_header_checksum[OF ok r1 v' r2 le]
  have res2: "result ctx2 = LZ4MT_RESULT_OK"
    using ok ctx_read_result'[OF r1] ctx_read_result'[OF r2] by (simp add: error_def)
  show "fst (lz4mtDecompress_header ctx sd0)
               \<longleftrightarrow> hc = ucast (drop_bit 8 (XXH32 ([fb, bb] @ ext) LZ4S_CHECKSUM_SEED))"
    by (simp add: h checkbits_byte(1))
  show "result (fst (snd (lz4mtDecompress_header ctx sd0)))
                  = LZ4MT_RESULT_INVALID_HEADER_CHECKSUM
               \<longleftrightarrow> hc \<noteq> ucast (drop_bit 8 (XXH32 ([fb, bb] @ ext) LZ4S_CHECKSUM_SEED))"
    by (simp add: h checkbits_byte(1) res2)
next
  fix tk :: "(mem_reader, byte list) async_tasks"
    and sd0 and fb bb hc :: byte and ext rest :: "byte list" and m'
  assume a: "validateStreamDescriptor (sd0\<lparr>flg := charToFlg fb, bd := charToBc bb\<rparr>)
                = LZ4MT_RESULT_OK
            \<and> length ext = (if streamSize (charToFlg fb) \<noteq> 0 then 8 else 0)
            \<and> hc \<noteq> ucast (drop_bit 8 (XXH32 ([fb, bb] @ ext) LZ4S_CHECKSUM_SEED))"
  let ?dctx = "mem_context cmp dec m' (storeU32 LZ4S_MAGICNUMBER @ [fb, bb] @ ext @ [hc] @ rest)"
  from a have v': "validateStreamDescriptor (sd0\<lparr>flg := charToFlg fb, bd := charToBc bb\<rparr>)
                = LZ4MT_RESULT_OK"
    and le: "length ext = (if streamSize (charToFlg fb) \<noteq> 0 then 8 else 0)"
    and hc: "hc \<noteq> ucast (getCheckBits_FromXXH (XXH32 ([fb, bb] @ ext) LZ4S_CHECKSUM_SEED))"
    by (simp_all add: checkbits_byte(1))
  have rem: "remaining (readCtx ?dctx) = storeU32 LZ4S_MAGICNUMBER @ [fb, bb] @ ext @ [hc] @ rest"
    by simp
  from decompress_bad_header[OF _ _ rem v' le hc, of tk]
  obtain sd2 where "lz4mtDecompress_frames tk (?dctx, sd0, False) =
     Some ((ctx_skip ?dctx (7 + length ext))\<lparr>result := LZ4MT_RESULT_INVALID_HEADER_CHECKSUM\<rparr>, sd2)"
    by auto
  from lz4mtDecompress_frames_result[OF _ this]
  show "map_option fst (lz4mtDecompress tk ?dctx sd0) = Some LZ4MT_RESULT_INVALID_HEADER_CHECKSUM"
    by simp
qed

theorem header_checksum_witness:
  "\<exists>ctx' hc body.
      lz4mtCompress (mem_context store_compress store_decompress 0 [1, 2, 3])
        lz4mtInitStreamDescriptor = Some (LZ4MT_RESULT_OK, ctx')
    \<and> writeCtx ctx' = storeU32 LZ4S_MAGICNUMBER @ [100, 112] @ [hc] @ body
    \<and> hc = ucast (drop_bit 8 (XXH32 [100, 112] LZ4S_CHECKSUM_SEED))
    \<and> hc = 185"
proof -
  let ?D = lz4mtInitStreamDescriptor
  have v: "validateStreamDescriptor ?D = LZ4MT_RESULT_OK"
    by (simp add: validateStreamDescriptor_def lz4mtInitStreamDescriptor_def
        LZ4S_BLOCKSIZEID_DEFAULT_def)
  have a: "streamSize (flg ?D) = 0 \<or> streamSizeValue ?D \<noteq> 0"
    by (simp add: lz4mtInitStreamDescriptor_def)
  have g: "getBlocksize (blockMaximumSize (bd ?D)) = 4194304"
    by (simp add: lz4mtInitStreamDescriptor_def LZ4S_BLOCKSIZEID_DEFAULT_def getBlocksize_def)
  have cc: "\<forall>src. int (length src) \<le> getBlocksize (blockMaximumSize (bd ?D)) \<longrightarrow>
                compress_contract store_compress src"
    unfolding g by (auto intro!: compress_contract_store)
  have desc: "[100, 112] = [flgToChar (flg ?D), bdToChar (bd ?D)]
                 @ (if streamSize (flg ?D) \<noteq> 0 then storeU64 (streamSizeValue ?D) else [])"
    by (simp add: lz4mtInitStreamDescriptor_def LZ4S_BLOCKSIZEID_DEFAULT_def flgToChar_def
        bdToChar_def)
  have e: "(ucast (drop_bit 8 (XXH32 [100, 112] LZ4S_CHECKSUM_SEED)) :: byte) = 185"
    by (simp add: xxh_eval)
  from conjunct1[OF conjunct2[OF header_checksum[OF v a cc desc, of store_decompress 0 "[1, 2, 3]"]]]
  show ?thesis using e by auto
qed

end
